theory Spec2Isabelle
  imports Complex_Main "HOL-Library.AList" "HOL-Library.Multiset"
begin

section \<open>JavaScript values\<close>

text \<open>
  A JavaScript string is a sequence of UTF-16 code units; a code unit is modelled as a
  natural number. \<open>lit\<close> turns an ASCII literal of the source into code units.
\<close>

type_synonym jsstring = "nat list"

definition lit :: "string \<Rightarrow> jsstring" where
  "lit s = map of_char s"

text \<open>
  A JavaScript number is a finite value, \<open>NaN\<close>, \<open>Infinity\<close> or \<open>-Infinity\<close>. A
  finite value is an exact rational: the rounding of IEEE doubles is not modelled. The
  two zeros are one value, which divides as the positive zero does: the divisors of the
  source are an image width, an image height and the literal 2, none of which is the
  negative zero, and no other operation of the source tells the two zeros apart.
\<close>

datatype number = Finite rat | NaN | PosInfinity | NegInfinity

text \<open>The operators \<open>/\<close>, \<open>*\<close> and \<open>-\<close>, \<open>Math.min\<close> of two numbers, and \<open><=\<close>.\<close>

fun num_div :: "number \<Rightarrow> number \<Rightarrow> number" where
  "num_div NaN y = NaN"
| "num_div x NaN = NaN"
| "num_div (Finite a) (Finite b) =
     (if b \<noteq> 0 then Finite (a / b)
      else if 0 < a then PosInfinity else if a < 0 then NegInfinity else NaN)"
| "num_div (Finite a) y = Finite 0"
| "num_div PosInfinity (Finite b) = (if 0 \<le> b then PosInfinity else NegInfinity)"
| "num_div NegInfinity (Finite b) = (if 0 \<le> b then NegInfinity else PosInfinity)"
| "num_div x y = NaN"

fun num_mul :: "number \<Rightarrow> number \<Rightarrow> number" where
  "num_mul NaN y = NaN"
| "num_mul x NaN = NaN"
| "num_mul (Finite a) (Finite b) = Finite (a * b)"
| "num_mul (Finite a) PosInfinity =
     (if a = 0 then NaN else if 0 < a then PosInfinity else NegInfinity)"
| "num_mul (Finite a) NegInfinity =
     (if a = 0 then NaN else if 0 < a then NegInfinity else PosInfinity)"
| "num_mul PosInfinity (Finite b) =
     (if b = 0 then NaN else if 0 < b then PosInfinity else NegInfinity)"
| "num_mul NegInfinity (Finite b) =
     (if b = 0 then NaN else if 0 < b then NegInfinity else PosInfinity)"
| "num_mul PosInfinity PosInfinity = PosInfinity"
| "num_mul NegInfinity NegInfinity = PosInfinity"
| "num_mul x y = NegInfinity"

fun num_sub :: "number \<Rightarrow> number \<Rightarrow> number" where
  "num_sub NaN y = NaN"
| "num_sub x NaN = NaN"
| "num_sub (Finite a) (Finite b) = Finite (a - b)"
| "num_sub (Finite a) PosInfinity = NegInfinity"
| "num_sub (Finite a) NegInfinity = PosInfinity"
| "num_sub PosInfinity PosInfinity = NaN"
| "num_sub NegInfinity NegInfinity = NaN"
| "num_sub PosInfinity y = PosInfinity"
| "num_sub NegInfinity y = NegInfinity"

fun num_min :: "number \<Rightarrow> number \<Rightarrow> number" where
  "num_min NaN y = NaN"
| "num_min x NaN = NaN"
| "num_min NegInfinity y = NegInfinity"
| "num_min x NegInfinity = NegInfinity"
| "num_min PosInfinity y = y"
| "num_min x PosInfinity = x"
| "num_min (Finite a) (Finite b) = Finite (min a b)"

fun num_le :: "number \<Rightarrow> number \<Rightarrow> bool" where
  "num_le NaN y = False"
| "num_le x NaN = False"
| "num_le NegInfinity y = True"
| "num_le x PosInfinity = True"
| "num_le (Finite a) (Finite b) = (a \<le> b)"
| "num_le x y = False"

text \<open>
  The rejections and exceptions of the source. The messages of the source are Chinese
  texts; each constructor stands for one \<open>new Error(...)\<close> of the source:
  \<^item> \<open>SvgParseFailed\<close>: sidepanel.tsx line 125 (the parser reported an error);
  \<^item> \<open>NoCanvasContext\<close>: sidepanel.tsx line 165 and offscreen/index.ts line 23;
  \<^item> \<open>SvgImageLoadFailed\<close>: sidepanel.tsx line 185 (\<open>img.onerror\<close>);
  \<^item> \<open>SvgProcessFailed\<close>: sidepanel.tsx line 192 (the outer \<open>catch\<close>);
  \<^item> \<open>SvgLoadFailed\<close>: offscreen/index.ts line 13 (\<open>img.onerror\<close>);
  \<^item> \<open>URIError\<close>: thrown by \<open>encodeURIComponent\<close> on a lone surrogate;
  \<^item> \<open>InvalidCustomSize\<close>: sidepanel.tsx line 442;
  \<^item> \<open>DownloadFailed\<close>: sidepanel.tsx line 436, the fallback message;
  \<^item> \<open>NoActiveTab\<close>: sidepanel.tsx line 486;
  \<^item> \<open>MessageFailed\<close>: a rejection of \<open>chrome.tabs.query\<close>, \<open>chrome.tabs.sendMessage\<close>
    or \<open>chrome.downloads.download\<close>.
\<close>

datatype error =
    SvgParseFailed
  | NoCanvasContext
  | SvgImageLoadFailed
  | SvgProcessFailed
  | SvgLoadFailed
  | URIError
  | InvalidCustomSize
  | DownloadFailed
  | NoActiveTab
  | MessageFailed

section \<open>Base64 data URLs\<close>

text \<open>
  Both rasterization paths turn markup into the bytes of its UTF-8 encoding
  (\<open>unescape(encodeURIComponent(s))\<close> in offscreen/index.ts, \<open>encodeURIComponent\<close>
  followed by the replacement of every \<open>%XX\<close> in sidepanel.tsx) and pass them to
  \<open>btoa\<close>. \<open>encodeURIComponent\<close> throws on a surrogate that has no partner, which is
  the value \<open>None\<close> here.
\<close>

fun utf8 :: "jsstring \<Rightarrow> nat list option" where
  "utf8 [] = Some []"
| "utf8 [c] =
     (if c < 0x80 then Some [c]
      else if c < 0x800 then Some [0xC0 + c div 64, 0x80 + c mod 64]
      else if 0xD800 \<le> c \<and> c < 0xE000 then None
      else Some [0xE0 + c div 0x1000, 0x80 + (c div 64) mod 64, 0x80 + c mod 64])"
| "utf8 (c # d # ds) =
     (if c < 0x80 then map_option ((#) c) (utf8 (d # ds))
      else if c < 0x800 then
        map_option ((@) [0xC0 + c div 64, 0x80 + c mod 64]) (utf8 (d # ds))
      else if 0xD800 \<le> c \<and> c < 0xDC00 then
        (if 0xDC00 \<le> d \<and> d < 0xE000 then
           (let cp = 0x10000 + (c - 0xD800) * 0x400 + (d - 0xDC00)
            in map_option
                 ((@) [0xF0 + cp div 0x40000, 0x80 + (cp div 0x1000) mod 64,
                       0x80 + (cp div 64) mod 64, 0x80 + cp mod 64])
                 (utf8 ds))
         else None)
      else if 0xDC00 \<le> c \<and> c < 0xE000 then None
      else map_option
             ((@) [0xE0 + c div 0x1000, 0x80 + (c div 64) mod 64, 0x80 + c mod 64])
             (utf8 (d # ds)))"

definition b64chars :: jsstring where
  "b64chars = lit ''ABCDEFGHIJKLMNOPQRSTUVWXYZabcdefghijklmnopqrstuvwxyz0123456789+/''"

definition b64 :: "nat \<Rightarrow> nat" where
  "b64 n = b64chars ! (n mod 64)"

text \<open>\<open>btoa\<close> on a string of bytes; 61 is the padding character \<open>=\<close>.\<close>

fun btoa :: "nat list \<Rightarrow> jsstring" where
  "btoa (a # b # c # rest) =
     [b64 (a div 4), b64 ((a mod 4) * 16 + b div 16), b64 ((b mod 16) * 4 + c div 64),
      b64 (c mod 64)] @ btoa rest"
| "btoa [a, b] = [b64 (a div 4), b64 ((a mod 4) * 16 + b div 16), b64 ((b mod 16) * 4), 61]"
| "btoa [a] = [b64 (a div 4), b64 ((a mod 4) * 16), 61, 61]"
| "btoa [] = []"

text \<open>offscreen/index.ts, lines 2 to 4.\<close>

definition svgToBase64 :: "jsstring \<Rightarrow> jsstring option" where
  "svgToBase64 svgString =
     map_option (\<lambda>bytes. lit ''data:image/svg+xml;base64,'' @ btoa bytes) (utf8 svgString)"

section \<open>Markup normalisation (sidepanel.tsx, cleanSvgString)\<close>

text \<open>
  The class \<open>\s\<close> of a JavaScript regular expression: the white space and line
  terminator code points of ECMAScript.
\<close>

definition is_space :: "nat \<Rightarrow> bool" where
  "is_space c \<longleftrightarrow>
     c \<in> {0x9, 0xA, 0xB, 0xC, 0xD, 0x20, 0xA0, 0x1680, 0x2028, 0x2029, 0x202F, 0x205F,
          0x3000, 0xFEFF}
     \<or> (0x2000 \<le> c \<and> c \<le> 0x200A)"

text \<open>Line 96, \<open>.replace(/\n/g, ' ')\<close>: every line feed (10) becomes a space (32).\<close>

definition replace_newlines :: "jsstring \<Rightarrow> jsstring" where
  "replace_newlines s = map (\<lambda>c. if c = 10 then 32 else c) s"

text \<open>
  Line 97, \<open>.replace(/\s+/g, ' ')\<close>: scanning from the left, each maximal run of white
  space becomes one space.
\<close>

function collapse_spaces :: "jsstring \<Rightarrow> jsstring" where
  "collapse_spaces [] = []"
| "collapse_spaces (c # cs) =
     (if is_space c then 32 # collapse_spaces (dropWhile is_space cs)
      else c # collapse_spaces cs)"
  by pat_completeness auto
termination
  by (relation "measure length") (auto simp: less_Suc_eq_le length_dropWhile_le)

text \<open>
  Line 98, \<open>.replace(/>\s+</g, '><')\<close>: a \<open>>\<close> (62), a non-empty maximal run of
  white space and a \<open><\<close> (60) become \<open>><\<close>; the scan goes on after the \<open><\<close>.
\<close>

definition tag_gap :: "jsstring \<Rightarrow> bool" where
  "tag_gap cs \<longleftrightarrow>
     takeWhile is_space cs \<noteq> [] \<and>
     (case dropWhile is_space cs of [] \<Rightarrow> False | d # ds \<Rightarrow> d = 60)"

function strip_tag_spaces :: "jsstring \<Rightarrow> jsstring" where
  "strip_tag_spaces [] = []"
| "strip_tag_spaces (c # cs) =
     (if c = 62 \<and> tag_gap cs then [62, 60] @ strip_tag_spaces (tl (dropWhile is_space cs))
      else c # strip_tag_spaces cs)"
  by pat_completeness auto
termination
proof (relation "measure length")
  show "wf (measure length)" by simp
next
  fix c :: nat and cs :: jsstring
  have "length (tl (dropWhile is_space cs)) \<le> length cs"
    using length_dropWhile_le[of is_space cs] by simp
  then show "(tl (dropWhile is_space cs), c # cs) \<in> measure length" by simp
next
  fix c :: nat and cs :: jsstring
  show "(cs, c # cs) \<in> measure length" by simp
qed

text \<open>
  Lines 99 and 100, \<open>.replace(/literal/g, replacement)\<close> for a literal pattern: scanning
  from the left, each occurrence found is replaced and the scan goes on after it.
\<close>

function replace_all :: "jsstring \<Rightarrow> jsstring \<Rightarrow> jsstring \<Rightarrow> jsstring" where
  "replace_all pat rep [] = []"
| "replace_all pat rep (c # cs) =
     (if pat \<noteq> [] \<and> take (length pat) (c # cs) = pat
      then rep @ replace_all pat rep (drop (length pat) (c # cs))
      else c # replace_all pat rep cs)"
  by pat_completeness auto
termination
  by (relation "measure (\<lambda>(pat, rep, s). length s)") auto

text \<open>
  Line 101, \<open>.replace(/literal/, replacement)\<close> without the global flag: only the first
  occurrence is replaced.
\<close>

fun replace_first :: "jsstring \<Rightarrow> jsstring \<Rightarrow> jsstring \<Rightarrow> jsstring" where
  "replace_first pat rep [] = (if pat = [] then rep else [])"
| "replace_first pat rep (c # cs) =
     (if take (length pat) (c # cs) = pat then rep @ drop (length pat) (c # cs)
      else c # replace_first pat rep cs)"

text \<open>The replacement text of line 101; 34 is the double quote.\<close>

definition svg_with_xmlns :: jsstring where
  "svg_with_xmlns = lit ''<svg xmlns='' @ [34] @ lit ''http://www.w3.org/2000/svg'' @ [34]"

text \<open>Lines 93 to 102.\<close>

definition cleanSvgString :: "jsstring \<Rightarrow> jsstring" where
  "cleanSvgString svgString =
     replace_first (lit ''<svg'') svg_with_xmlns
       (replace_all (lit ''xmlns:xlink'') (lit ''xmlns'')
         (replace_all (lit ''xlink:href'') (lit ''href'')
           (strip_tag_spaces (collapse_spaces (replace_newlines svgString)))))"

text \<open>
  The vocabulary of the properties of the normalised markup. \<open>respaced s\<close> is the
  markup after the three white space steps of lines 96 to 98, and \<open>relinked t\<close> is a
  text after the two rewritings of lines 99 and 100. A string is single-spaced
  when each of its white space code units is a plain space that is not followed by white
  space. It is free of tag gaps when no \<open>>\<close> is followed by white space and then a
  \<open><\<close>. A pattern is unbordered when none of its proper prefixes is also a suffix, so
  that two of its occurrences never overlap. A pattern occurs in a text when the text
  has it at some position.
\<close>

abbreviation respaced :: "jsstring \<Rightarrow> jsstring" where
  "respaced s \<equiv> strip_tag_spaces (collapse_spaces (replace_newlines s))"

abbreviation relinked :: "jsstring \<Rightarrow> jsstring" where
  "relinked t \<equiv>
     replace_all (lit ''xmlns:xlink'') (lit ''xmlns'')
       (replace_all (lit ''xlink:href'') (lit ''href'') t)"

fun single_spaced :: "jsstring \<Rightarrow> bool" where
  "single_spaced [] = True"
| "single_spaced [c] = (is_space c \<longrightarrow> c = 32)"
| "single_spaced (c # d # cs) =
     ((is_space c \<longrightarrow> c = 32 \<and> \<not> is_space d) \<and> single_spaced (d # cs))"

fun gap_free :: "jsstring \<Rightarrow> bool" where
  "gap_free [] = True"
| "gap_free (c # cs) = (\<not> (c = 62 \<and> tag_gap cs) \<and> gap_free cs)"

definition unbordered :: "jsstring \<Rightarrow> bool" where
  "unbordered pat \<longleftrightarrow>
     list_all (\<lambda>k. take k pat \<noteq> drop (length pat - k) pat) [1..<length pat]"

fun occurs :: "jsstring \<Rightarrow> jsstring \<Rightarrow> bool" where
  "occurs pat [] = (pat = [])"
| "occurs pat (c # cs) = (take (length pat) (c # cs) = pat \<or> occurs pat cs)"

section \<open>The canvas and the platform\<close>

text \<open>
  A decoded image has the integer width and height the browser reports. A canvas is
  the sequence of calls the source makes on it and on its 2D context, in program order,
  with the numbers the source passes; what the browser paints for them is not modelled.
  A canvas that no call has filled is transparent.
\<close>

record image =
  img_width :: nat
  img_height :: nat

datatype canvas_op =
    SetCanvasWidth number
  | SetCanvasHeight number
  | SetFillStyle jsstring
  | FillRect number number number number
  | SetImageSmoothingEnabled bool
  | SetImageSmoothingQuality jsstring
  | DrawImage image number number number number

fun is_fill :: "canvas_op \<Rightarrow> bool" where
  "is_fill (FillRect x y w h) = True"
| "is_fill (SetFillStyle c) = True"
| "is_fill uu = False"

text \<open>
  The root element of a parsed document: its name, its attributes in order and its
  content, which the source never inspects.
\<close>

record xml_element =
  xml_name :: jsstring
  xml_attrs :: "(jsstring \<times> jsstring) list"
  xml_content :: jsstring

text \<open>
  \<open>setAttribute\<close> gives an existing attribute its new value in place and appends a new
  one.
\<close>

definition setAttribute :: "xml_element \<Rightarrow> jsstring \<Rightarrow> jsstring \<Rightarrow> xml_element" where
  "setAttribute e name v = e\<lparr>xml_attrs := AList.update name v (xml_attrs e)\<rparr>"

definition getAttribute :: "xml_element \<Rightarrow> jsstring \<Rightarrow> jsstring option" where
  "getAttribute e name = map_of (xml_attrs e) name"

text \<open>
  What the browser does and the source only calls:
  \<^item> \<open>parseFromString\<close>: \<open>DOMParser\<close> on \<open>image/svg+xml\<close>; \<open>None\<close> when the document
    holds a \<open>parsererror\<close> element, otherwise the document element;
  \<^item> \<open>serializeToString\<close>: \<open>XMLSerializer\<close>;
  \<^item> \<open>decodeImage\<close>: loading a data URL into an \<open>Image\<close> (\<open>None\<close>: the \<open>onerror\<close>
    handler runs);
  \<^item> \<open>getContext2d\<close>: whether \<open>getContext('2d')\<close> returns a context;
  \<^item> \<open>toDataURL\<close>: the PNG data URL of a canvas;
  \<^item> \<open>numToString\<close>: the conversion of a number to a string;
  \<^item> \<open>downloadRejects\<close>: whether \<open>chrome.downloads.download\<close> rejects for a file name.
  Drawing and PNG encoding are taken not to throw.
\<close>

record platform =
  parseFromString :: "jsstring \<Rightarrow> xml_element option"
  serializeToString :: "xml_element \<Rightarrow> jsstring"
  decodeImage :: "jsstring \<Rightarrow> image option"
  getContext2d :: bool
  toDataURL :: "canvas_op list \<Rightarrow> jsstring"
  numToString :: "number \<Rightarrow> jsstring"
  downloadRejects :: "jsstring \<Rightarrow> bool"

section \<open>The isolated-context rasterizer (offscreen/index.ts)\<close>

text \<open>Lines 27 to 42: the calls on the 2D context inside \<open>img.onload\<close>.\<close>

definition processImage_draw :: "image \<Rightarrow> number \<Rightarrow> number \<Rightarrow> canvas_op list" where
  "processImage_draw img width height =
     (let scale = num_min (num_div width (Finite (of_nat (img_width img))))
                    (num_div height (Finite (of_nat (img_height img))));
          scaledWidth = num_mul (Finite (of_nat (img_width img))) scale;
          scaledHeight = num_mul (Finite (of_nat (img_height img))) scale;
          x = num_div (num_sub width scaledWidth) (Finite 2);
          y = num_div (num_sub height scaledHeight) (Finite 2)
      in [SetImageSmoothingEnabled True, SetImageSmoothingQuality (lit ''high''),
          DrawImage img x y scaledWidth scaledHeight])"

text \<open>Lines 7 to 54: \<open>processImage\<close>, the promise's outcome as a value.\<close>

definition processImage ::
  "platform \<Rightarrow> jsstring \<Rightarrow> number \<Rightarrow> number \<Rightarrow> error + jsstring" where
  "processImage P svgString width height =
     (case svgToBase64 svgString of
        None \<Rightarrow> Inl URIError
      | Some svgBase64 \<Rightarrow>
          (case decodeImage P svgBase64 of
             None \<Rightarrow> Inl SvgLoadFailed
           | Some img \<Rightarrow>
               if \<not> getContext2d P then Inl NoCanvasContext
               else Inr (toDataURL P
                      ([SetCanvasWidth width, SetCanvasHeight height]
                       @ processImage_draw img width height))))"

section \<open>The interactive rasterizer (sidepanel.tsx, svgToDataUrl)\<close>

text \<open>Lines 129 to 134: the three attributes set on the document element.\<close>

definition svgToDataUrl_resized ::
  "platform \<Rightarrow> xml_element \<Rightarrow> number \<Rightarrow> number \<Rightarrow> xml_element" where
  "svgToDataUrl_resized P svgElement width height =
     setAttribute
       (setAttribute
          (setAttribute svgElement (lit ''width'') (numToString P width))
          (lit ''height'') (numToString P height))
       (lit ''viewBox'')
       (lit ''0 0 '' @ numToString P width @ lit '' '' @ numToString P height)"

text \<open>
  Lines 111 to 146 with the \<open>catch\<close> of lines 190 to 193: the data URL given to the
  image, or the rejection. The only step of these lines that can throw is
  \<open>encodeURIComponent\<close>.
\<close>

definition svgToDataUrl_src ::
  "platform \<Rightarrow> jsstring \<Rightarrow> number \<Rightarrow> number \<Rightarrow> error + jsstring" where
  "svgToDataUrl_src P svgString width height =
     (case parseFromString P (cleanSvgString svgString) of
        None \<Rightarrow> Inl SvgParseFailed
      | Some svgElement \<Rightarrow>
          (case utf8 (serializeToString P (svgToDataUrl_resized P svgElement width height)) of
             None \<Rightarrow> Inl SvgProcessFailed
           | Some encoded \<Rightarrow> Inr (lit ''data:image/svg+xml;base64,'' @ btoa encoded)))"

text \<open>Lines 169 to 172: the calls on the 2D context inside \<open>img.onload\<close>.\<close>

definition svgToDataUrl_draw :: "image \<Rightarrow> number \<Rightarrow> number \<Rightarrow> canvas_op list" where
  "svgToDataUrl_draw img width height =
     [SetFillStyle (lit ''white''), FillRect (Finite 0) (Finite 0) width height,
      DrawImage img (Finite 0) (Finite 0) width height]"

text \<open>Lines 105 to 195: \<open>svgToDataUrl\<close>, the promise's outcome as a value.\<close>

definition svgToDataUrl ::
  "platform \<Rightarrow> jsstring \<Rightarrow> number \<Rightarrow> number \<Rightarrow> error + jsstring" where
  "svgToDataUrl P svgString width height =
     (case svgToDataUrl_src P svgString width height of
        Inl e \<Rightarrow> Inl e
      | Inr dataUrl \<Rightarrow>
          (case decodeImage P dataUrl of
             None \<Rightarrow> Inl SvgImageLoadFailed
           | Some img \<Rightarrow>
               if \<not> getContext2d P then Inl NoCanvasContext
               else Inr (toDataURL P
                      ([SetCanvasWidth width, SetCanvasHeight height]
                       @ svgToDataUrl_draw img width height))))"

section \<open>The panel (sidepanel.tsx)\<close>

text \<open>
  Lines 6 to 13 and 239 to 243. The dimensions of a discovered item are the finite
  numbers the Scanner resolved; a stored custom size holds any two numbers.
\<close>

record dimensions =
  dims_width :: rat
  dims_height :: rat

record SVGItem =
  item_id :: nat
  outerHTML :: jsstring
  dimensions :: dimensions

record CustomSize =
  cs_width :: number
  cs_height :: number
  keepRatio :: bool

text \<open>
  Lines 16 to 24. The last three labels are Chinese texts ("original size", "download
  all sizes", "custom size"), given by their code units.
\<close>

record preset =
  p_width :: rat
  p_height :: rat
  p_label :: jsstring

definition PRESET_SIZES :: "preset list" where
  "PRESET_SIZES =
     [\<lparr> p_width = 16, p_height = 16, p_label = lit ''16x16'' \<rparr>,
      \<lparr> p_width = 32, p_height = 32, p_label = lit ''32x32'' \<rparr>,
      \<lparr> p_width = 48, p_height = 48, p_label = lit ''48x48'' \<rparr>,
      \<lparr> p_width = 128, p_height = 128, p_label = lit ''128x128'' \<rparr>,
      \<lparr> p_width = 0, p_height = 0, p_label = [0x539F, 0x59CB, 0x5C3A, 0x5BF8] \<rparr>,
      \<lparr> p_width = - 1, p_height = - 1,
        p_label = [0x4E0B, 0x8F7D, 0x6240, 0x6709, 0x5C3A, 0x5BF8] \<rparr>,
      \<lparr> p_width = - 2, p_height = - 2,
        p_label = [0x81EA, 0x5B9A, 0x4E49, 0x5C3A, 0x5BF8] \<rparr>]"

text \<open>
  What a download handler does to the outside, in program order: a call of
  \<open>svgToDataUrl\<close> with its arguments, and a call of \<open>chrome.downloads.download\<close> with its
  URL, file name and \<open>saveAs\<close> flag. The URL of an archive is a blob URL; it is
  represented by the entries of the archive, a file name with the data stored under
  it. \<open>zip.file\<close> of an existing name replaces the entry.
\<close>

type_synonym zip_entries = "(jsstring \<times> jsstring option) list"

datatype download_url = DataUrl jsstring | ZipBlob zip_entries

datatype panel_event =
    Rasterize jsstring number number
  | Download download_url jsstring bool

text \<open>\<open>String.prototype.split\<close> with a separator of one code unit, and indexing.\<close>

fun split_on :: "nat \<Rightarrow> jsstring \<Rightarrow> jsstring list" where
  "split_on sep [] = [[]]"
| "split_on sep (c # cs) =
     (if c = sep then [] # split_on sep cs
      else (case split_on sep cs of [] \<Rightarrow> [[c]] | p # ps \<Rightarrow> (c # p) # ps))"

definition nth_opt :: "'a list \<Rightarrow> nat \<Rightarrow> 'a option" where
  "nth_opt xs i = (if i < length xs then Some (xs ! i) else None)"

text \<open>Lines 205 and 206 (and 453 and 454): \<open>size.width || svg.dimensions.width\<close>.\<close>

definition preset_target :: "SVGItem \<Rightarrow> preset \<Rightarrow> rat \<times> rat" where
  "preset_target svg sz =
     (if p_width sz \<noteq> 0 then p_width sz else dims_width (dimensions svg),
      if p_height sz \<noteq> 0 then p_height sz else dims_height (dimensions svg))"

text \<open>Lines 210, 448 and 459, and line 223: the file names.\<close>

definition png_filename :: "platform \<Rightarrow> nat \<Rightarrow> number \<Rightarrow> number \<Rightarrow> jsstring" where
  "png_filename P i w h =
     lit ''svg_'' @ numToString P (Finite (of_nat i)) @ lit ''_'' @ numToString P w
       @ lit ''x'' @ numToString P h @ lit ''.png''"

definition zip_filename :: "platform \<Rightarrow> nat \<Rightarrow> jsstring" where
  "zip_filename P i =
     lit ''svg_'' @ numToString P (Finite (of_nat i)) @ lit ''_all_sizes.zip''"

text \<open>
  Lines 204 to 215: one task per size; a task that rejects makes \<open>Promise.all\<close> reject
  and the archive is given up. The tasks finish in an order the browser chooses; here
  they finish in the order of the list. 44 is the comma.
\<close>

fun add_entries ::
  "platform \<Rightarrow> SVGItem \<Rightarrow> (rat \<times> rat) list \<Rightarrow> zip_entries \<Rightarrow> error + zip_entries" where
  "add_entries P svg [] entries = Inr entries"
| "add_entries P svg ((w, h) # rest) entries =
     (case svgToDataUrl P (outerHTML svg) (Finite w) (Finite h) of
        Inl e \<Rightarrow> Inl e
      | Inr dataUrl \<Rightarrow>
          add_entries P svg rest
            (AList.update (png_filename P (item_id svg) (Finite w) (Finite h))
               (nth_opt (split_on 44 dataUrl) 1) entries))"

text \<open>
  Lines 198 to 236. Every task calls \<open>svgToDataUrl\<close> before the first one finishes.
  Building the archive from its entries is taken not to fail.
\<close>

definition downloadAllSizes :: "platform \<Rightarrow> SVGItem \<Rightarrow> (error + unit) \<times> panel_event list" where
  "downloadAllSizes P svg =
     (let sizes = filter (\<lambda>sz. 0 \<le> p_width sz) PRESET_SIZES;
          targets = map (preset_target svg) sizes;
          calls = map (\<lambda>(w, h). Rasterize (outerHTML svg) (Finite w) (Finite h)) targets
      in case add_entries P svg targets [] of
           Inl e \<Rightarrow> (Inl e, calls)
         | Inr entries \<Rightarrow>
             (if downloadRejects P (zip_filename P (item_id svg)) then Inl MessageFailed
              else Inr (),
              calls @ [Download (ZipBlob entries) (zip_filename P (item_id svg)) True]))"

text \<open>
  Lines 445 to 450 and lines 456 to 461, which are the same statements: rasterize at one
  size and save the PNG.
\<close>

definition download_single ::
  "platform \<Rightarrow> SVGItem \<Rightarrow> number \<Rightarrow> number \<Rightarrow> error option \<times> panel_event list" where
  "download_single P svg w h =
     (case svgToDataUrl P (outerHTML svg) w h of
        Inl e \<Rightarrow> (Some e, [Rasterize (outerHTML svg) w h])
      | Inr dataUrl \<Rightarrow>
          (if downloadRejects P (png_filename P (item_id svg) w h) then Some MessageFailed
           else None,
           [Rasterize (outerHTML svg) w h,
            Download (DataUrl dataUrl) (png_filename P (item_id svg) w h) True]))"

text \<open>
  Lines 424 to 475: \<open>handleDownload\<close> for the size selected for the item (if any) and the
  custom size stored for it (if any). The result is the error recorded in the item's
  download status at the end (\<open>None\<close>: no error) and what was done.
\<close>

definition handleDownload ::
  "platform \<Rightarrow> preset option \<Rightarrow> CustomSize option \<Rightarrow> SVGItem
     \<Rightarrow> error option \<times> panel_event list" where
  "handleDownload P selected custom svg =
     (let selectedSize = (case selected of None \<Rightarrow> PRESET_SIZES ! 0 | Some sz \<Rightarrow> sz)
      in if p_width selectedSize = - 1 then
           (case downloadAllSizes P svg of
              (Inl e, evs) \<Rightarrow> (Some e, evs)
            | (Inr u, evs) \<Rightarrow> (None, evs))
         else if p_width selectedSize = - 2 then
           (case custom of
              None \<Rightarrow> (Some InvalidCustomSize, [])
            | Some customSize \<Rightarrow>
                if num_le (cs_width customSize) (Finite 0)
                   \<or> num_le (cs_height customSize) (Finite 0)
                then (Some InvalidCustomSize, [])
                else download_single P svg (cs_width customSize) (cs_height customSize))
         else download_single P svg (Finite (fst (preset_target svg selectedSize)))
                (Finite (snd (preset_target svg selectedSize))))"

text \<open>
  Lines 477 to 504: \<open>scanSVGs\<close>. The environment gives the outcome of
  \<open>chrome.tabs.query\<close> (a rejection, or the id of the first tab if there is one) and of
  \<open>chrome.tabs.sendMessage\<close> (a rejection, or the \<open>svgData\<close> of the response if it has
  one). Every exception is caught inside: \<open>scanSVGs\<close> always returns normally.
\<close>

record panel_state =
  svgItems :: "SVGItem list"
  isScanning :: bool
  scanError :: "error option"
  currentTabId :: "nat option"

record scan_env =
  tabsQuery :: "error + nat option"
  sendMessage :: "nat \<Rightarrow> error + SVGItem list option"

definition scanSVGs :: "scan_env \<Rightarrow> panel_state \<Rightarrow> panel_state" where
  "scanSVGs env st =
     (let st1 = st\<lparr> isScanning := True, scanError := None \<rparr>;
          failed = (\<lambda>e s. s\<lparr> scanError := Some e, svgItems := [], isScanning := False \<rparr>)
      in case tabsQuery env of
           Inl e \<Rightarrow> failed e st1
         | Inr None \<Rightarrow> failed NoActiveTab st1
         | Inr (Some tabId) \<Rightarrow>
             if tabId = 0 then failed NoActiveTab st1
             else (case sendMessage env tabId of
                     Inl e \<Rightarrow> failed e (st1\<lparr> currentTabId := Some tabId \<rparr>)
                   | Inr None \<Rightarrow>
                       st1\<lparr> currentTabId := Some tabId, svgItems := [], isScanning := False \<rparr>
                   | Inr (Some svgData) \<Rightarrow>
                       st1\<lparr> currentTabId := Some tabId, svgItems := svgData,
                           isScanning := False \<rparr>))"

text \<open>
  Lines 547 to 557: \<open>retryOnError\<close>, from attempt \<open>i\<close> on. The operation works on a
  state and returns normally or throws. The result is the outcome, the state and the
  attempts and waits (in milliseconds) in order.
\<close>

datatype retry_event = Attempt nat | Wait nat

function retry_from ::
  "('s \<Rightarrow> (error + unit) \<times> 's) \<Rightarrow> nat \<Rightarrow> nat \<Rightarrow> 's \<Rightarrow> (error + unit) \<times> 's \<times> retry_event list" where
  "retry_from fn maxRetries i s =
     (if i < maxRetries then
        (case fn s of
           (Inr u, s') \<Rightarrow> (Inr (), s', [Attempt i])
         | (Inl e, s') \<Rightarrow>
             if i = maxRetries - 1 then (Inl e, s', [Attempt i])
             else (case retry_from fn maxRetries (i + 1) s' of
                     (r, s'', evs) \<Rightarrow> (r, s'', Attempt i # Wait (1000 * (i + 1)) # evs)))
      else (Inr (), s, []))"
  by pat_completeness auto
termination
  by (relation "measure (\<lambda>(fn, maxRetries, i, s). maxRetries - i)") auto

declare retry_from.simps [simp del]

definition retryOnError ::
  "('s \<Rightarrow> (error + unit) \<times> 's) \<Rightarrow> nat \<Rightarrow> 's \<Rightarrow> (error + unit) \<times> 's \<times> retry_event list" where
  "retryOnError fn maxRetries s = retry_from fn maxRetries 0 s"

text \<open>Lines 559 to 561: \<open>retryOnError(scanSVGs)\<close> with the default of three attempts.\<close>

definition initial_scan ::
  "scan_env \<Rightarrow> panel_state \<Rightarrow> (error + unit) \<times> panel_state \<times> retry_event list" where
  "initial_scan env st = retryOnError (\<lambda>s. (Inr (), scanSVGs env s)) 3 st"

section \<open>The Scanner: dimensions (content.ts, getSVGDimensions)\<close>

text \<open>
  What \<open>getSVGDimensions\<close> reads from an SVG element: the \<open>width\<close>, \<open>height\<close> and
  \<open>viewBox\<close> attributes (\<open>None\<close>: the attribute is absent), the width and height of the
  computed style, the strings of the width and height of the bounding box (\<open>None\<close>:
  \<open>getBBox\<close> throws), and \<open>clientWidth\<close> and \<open>clientHeight\<close>, which are integers that
  are not negative.
\<close>

record svg_props =
  attr_width :: "jsstring option"
  attr_height :: "jsstring option"
  attr_viewBox :: "jsstring option"
  style_width :: jsstring
  style_height :: jsstring
  bbox :: "(jsstring \<times> jsstring) option"
  clientWidth :: nat
  clientHeight :: nat

text \<open>\<open>!v\<close> for a string that may be \<open>null\<close>: true for \<open>null\<close> and for the empty string.\<close>

definition falsy :: "jsstring option \<Rightarrow> bool" where
  "falsy v \<longleftrightarrow> v = None \<or> v = Some []"

text \<open>
  Lines 88 to 95: the step that reads the view box, applied to the values of the
  variables \<open>width\<close> and \<open>height\<close>. 32 is the space.
\<close>

definition from_viewBox ::
  "svg_props \<Rightarrow> jsstring option \<times> jsstring option \<Rightarrow> jsstring option \<times> jsstring option" where
  "from_viewBox svg wh =
     (if (falsy (fst wh) \<or> falsy (snd wh)) \<and> \<not> falsy (attr_viewBox svg) then
        (case attr_viewBox svg of
           None \<Rightarrow> wh
         | Some vb \<Rightarrow>
             (let viewBox = split_on 32 vb
              in if length viewBox = 4 then (Some (viewBox ! 2), Some (viewBox ! 3)) else wh))
      else wh)"

text \<open>Lines 97 to 102: the step that reads the computed style.\<close>

definition from_style ::
  "svg_props \<Rightarrow> jsstring option \<times> jsstring option \<Rightarrow> jsstring option \<times> jsstring option" where
  "from_style svg wh =
     (if falsy (fst wh) \<or> falsy (snd wh)
      then (Some (style_width svg), Some (style_height svg)) else wh)"

text \<open>Lines 104 to 113: the step that reads the bounding box.\<close>

definition from_bbox ::
  "svg_props \<Rightarrow> jsstring option \<times> jsstring option \<Rightarrow> jsstring option \<times> jsstring option" where
  "from_bbox svg wh =
     (if falsy (fst wh) \<or> falsy (snd wh) then
        (case bbox svg of None \<Rightarrow> wh | Some (bw, bh) \<Rightarrow> (Some bw, Some bh))
      else wh)"

text \<open>Lines 85 to 113: the variables \<open>width\<close> and \<open>height\<close> after the three steps.\<close>

definition resolved_strings :: "svg_props \<Rightarrow> jsstring option \<times> jsstring option" where
  "resolved_strings svg =
     from_bbox svg (from_style svg (from_viewBox svg (attr_width svg, attr_height svg)))"

text \<open>
  \<open>parseFloat\<close> on a string of digits (48 to 57) and dots (46), the only strings
  \<open>parseSize\<close> gives it: the digits before the first dot and the digits after it up to
  the next dot; \<open>None\<close> is \<open>NaN\<close>, the result for a string that starts with a dot not
  followed by a digit. The value is exact.
\<close>

definition is_digit :: "nat \<Rightarrow> bool" where
  "is_digit c \<longleftrightarrow> 48 \<le> c \<and> c \<le> 57"

definition digits_value :: "jsstring \<Rightarrow> nat" where
  "digits_value ds = foldl (\<lambda>acc d. 10 * acc + (d - 48)) 0 ds"

definition parseFloat_digits_dots :: "jsstring \<Rightarrow> rat option" where
  "parseFloat_digits_dots s =
     (let ip = takeWhile is_digit s;
          fp = (case dropWhile is_digit s of
                  [] \<Rightarrow> []
                | c # t \<Rightarrow> if c = 46 then takeWhile is_digit t else [])
      in if ip = [] \<and> fp = [] then None
         else Some (of_nat (digits_value ip) + of_nat (digits_value fp) / 10 ^ length fp))"

text \<open>Lines 116 to 120: \<open>parseSize\<close>, with the match of \<open>/^([\d.]+)/\<close>.\<close>

definition parseSize :: "jsstring option \<Rightarrow> rat option" where
  "parseSize sz =
     (case sz of
        None \<Rightarrow> Some 0
      | Some s \<Rightarrow>
          if s = [] then Some 0
          else (let m = takeWhile (\<lambda>c. is_digit c \<or> c = 46) s
                in if m = [] then Some 0 else parseFloat_digits_dots m))"

text \<open>
  Lines 123 and 124: \<open>parseSize(v) || client || 100\<close>; zero and \<open>NaN\<close> are the numbers
  that \<open>||\<close> passes over.
\<close>

definition resolve_axis :: "rat option \<Rightarrow> nat \<Rightarrow> rat" where
  "resolve_axis parsed client =
     (case parsed of
        None \<Rightarrow> if client \<noteq> 0 then of_nat client else 100
      | Some r \<Rightarrow> if r \<noteq> 0 then r else if client \<noteq> 0 then of_nat client else 100)"

text \<open>Lines 83 to 126.\<close>

definition getSVGDimensions :: "svg_props \<Rightarrow> dimensions" where
  "getSVGDimensions svg =
     \<lparr> dims_width = resolve_axis (parseSize (fst (resolved_strings svg))) (clientWidth svg),
       dims_height = resolve_axis (parseSize (snd (resolved_strings svg))) (clientHeight svg) \<rparr>"

text \<open>
  The order of the sources in words: the candidates are the attribute pair, the pair of
  the third and fourth components of a view box with exactly four components separated
  by single spaces, and the computed-style pair; the first candidate in which both
  strings are present and not empty is taken; when there is none, the bounding box if it
  can be obtained, and the computed-style pair otherwise.
\<close>

definition both_present :: "jsstring option \<times> jsstring option \<Rightarrow> bool" where
  "both_present wh \<longleftrightarrow> \<not> falsy (fst wh) \<and> \<not> falsy (snd wh)"

definition viewBox_candidate :: "svg_props \<Rightarrow> (jsstring option \<times> jsstring option) list" where
  "viewBox_candidate svg =
     (case attr_viewBox svg of
        None \<Rightarrow> []
      | Some vb \<Rightarrow>
          if length (split_on 32 vb) = 4
          then [(Some (split_on 32 vb ! 2), Some (split_on 32 vb ! 3))] else [])"

definition resolved_strings_in_words :: "svg_props \<Rightarrow> jsstring option \<times> jsstring option" where
  "resolved_strings_in_words svg =
     (case find both_present
             ([(attr_width svg, attr_height svg)] @ viewBox_candidate svg
              @ [(Some (style_width svg), Some (style_height svg))]) of
        Some wh \<Rightarrow> wh
      | None \<Rightarrow>
          (case bbox svg of
             None \<Rightarrow> (Some (style_width svg), Some (style_height svg))
           | Some (bw, bh) \<Rightarrow> (Some bw, Some bh)))"

section \<open>The Scanner: traversal (content.ts, scanSVGElements)\<close>

text \<open>
  An element of a page: its identity, its local name, whether it implements the
  interface \<open>SVGElement\<close>, its realm, its child elements in order, the top-level
  elements of its open shadow root (\<open>None\<close>: \<open>el.shadowRoot\<close> is \<open>null\<close>), and the
  top-level elements of its content document (\<open>None\<close>: the element has none, or
  reading it gives \<open>null\<close> or throws). A document and a shadow root are given by their
  top-level elements. The realm of an element is the global environment whose
  constructors are in its prototype chain: 0 is the realm of the document the Scanner
  runs in, and every frame has a realm of its own, in which the elements of its
  document are made.
\<close>

datatype element =
  Element (uid: nat) (localName: jsstring) (svgInterface: bool) (realm: nat)
    (childElements: "element list") (shadowRoot: "element list option")
    (contentDocument: "element list option")

text \<open>
  Lines 31, 43 and 60: \<open>SVGElement\<close> and \<open>Element\<close> are the constructors of the
  Scanner's realm, and \<open>instanceof\<close> looks for them in the prototype chain of the
  element.
\<close>

definition instanceof_SVGElement :: "element \<Rightarrow> bool" where
  "instanceof_SVGElement e \<longleftrightarrow> realm e = 0 \<and> svgInterface e"

definition instanceof_Element :: "element \<Rightarrow> bool" where
  "instanceof_Element e \<longleftrightarrow> realm e = 0"

text \<open>
  \<open>querySelectorAll\<close> returns the matching descendants of a document, shadow root or
  element in document order; it enters neither shadow roots nor content documents.
\<close>

fun subtree :: "element \<Rightarrow> element list" where
  "subtree (Element u n s i cs sh fr) = Element u n s i cs sh fr # concat (map subtree cs)"

definition descendants :: "element list \<Rightarrow> element list" where
  "descendants rootNode = concat (map subtree rootNode)"

datatype selector = Universal | TypeSelector jsstring

fun matches :: "selector \<Rightarrow> element \<Rightarrow> bool" where
  "matches Universal e = True"
| "matches (TypeSelector n) e = (localName e = n)"

definition querySelectorAll :: "selector \<Rightarrow> element list \<Rightarrow> element list" where
  "querySelectorAll sel rootNode = filter (matches sel) (descendants rootNode)"

text \<open>
  Lines 28 to 35, \<open>scanRegularDOM\<close>, and lines 38 to 48, \<open>scanShadowDOM\<close>: what each
  call appends to \<open>svgElements\<close>, in the order of the calls.
\<close>

definition scanRegularDOM :: "element list \<Rightarrow> element list" where
  "scanRegularDOM rootNode =
     filter instanceof_SVGElement (querySelectorAll (TypeSelector (lit ''svg'')) rootNode)"

function scanShadowDOM :: "element \<Rightarrow> element list" where
  "scanShadowDOM rootNode =
     (case shadowRoot rootNode of
        None \<Rightarrow> []
      | Some sr \<Rightarrow>
          scanRegularDOM sr
          @ concat (map scanShadowDOM
                      (filter (\<lambda>el. instanceof_Element el \<and> shadowRoot el \<noteq> None)
                         (querySelectorAll Universal sr))))"
  by pat_completeness auto
termination
proof (relation "measure size")
  show "wf (measure size)" by simp
next
  fix rootNode :: element and sr el
  assume sr: "shadowRoot rootNode = Some sr"
    and el: "el \<in> set (filter (\<lambda>el. instanceof_Element el \<and> shadowRoot el \<noteq> None)
                            (querySelectorAll Universal sr))"
  have sub: "e \<in> set (subtree x) \<Longrightarrow> size e \<le> size x" for e x
  proof (induction x arbitrary: e rule: subtree.induct)
    case (1 u n s i cs sh fr)
    then show ?case
      by (fastforce dest: size_list_estimation' simp: le_Suc_eq)
  qed
  have "size el \<le> size_list size sr"
    using el unfolding querySelectorAll_def descendants_def
    by (auto dest!: sub intro: size_list_estimation')
  also have "\<dots> < size rootNode"
    using sr by (cases rootNode) simp
  finally show "(el, rootNode) \<in> measure size" by simp
qed

declare scanShadowDOM.simps [simp del]

text \<open>Lines 51 to 69, \<open>scanIframes\<close>, and lines 25 to 74, one traversal.\<close>

definition scanIframes :: "element list \<Rightarrow> element list" where
  "scanIframes document =
     concat (map (\<lambda>iframe.
                    case contentDocument iframe of
                      None \<Rightarrow> []
                    | Some iframeDoc \<Rightarrow>
                        scanRegularDOM iframeDoc
                        @ concat (map scanShadowDOM
                                    (filter instanceof_Element (querySelectorAll Universal iframeDoc))))
                 (querySelectorAll (TypeSelector (lit ''iframe'')) document))"

definition traverse :: "element list \<Rightarrow> element list" where
  "traverse document =
     scanRegularDOM document
     @ concat (map scanShadowDOM (querySelectorAll Universal document))
     @ scanIframes document"

text \<open>
  Lines 14 to 80: the closure variables \<open>cachedElements\<close> and \<open>lastScanTime\<close> are the
  state; \<open>now\<close> is the value of \<open>Date.now()\<close>, in milliseconds. An array, empty or not,
  is truthy.
\<close>

record scanner_state =
  cachedElements :: "element list option"
  lastScanTime :: int

definition initial_scanner :: scanner_state where
  "initial_scanner = \<lparr> cachedElements = None, lastScanTime = 0 \<rparr>"

definition CACHE_DURATION :: int where
  "CACHE_DURATION = 1000"

definition scanSVGElements ::
  "scanner_state \<Rightarrow> int \<Rightarrow> element list \<Rightarrow> element list \<times> scanner_state" where
  "scanSVGElements st now document =
     (let fresh = (traverse document,
                   \<lparr> cachedElements = Some (traverse document), lastScanTime = now \<rparr>)
      in case cachedElements st of
           None \<Rightarrow> fresh
         | Some cached \<Rightarrow>
             if now - lastScanTime st < CACHE_DURATION then (cached, st) else fresh)"

text \<open>
  Lines 129 to 146: the message listener. The serialization of an element
  (\<open>outerHTML\<close>) and what \<open>getSVGDimensions\<close> reads from it are given by the browser. The
  answer is \<open>None\<close> for a message that is not a scan request.
\<close>

definition onMessage ::
  "(element \<Rightarrow> jsstring) \<Rightarrow> (element \<Rightarrow> svg_props) \<Rightarrow> jsstring \<Rightarrow> scanner_state \<Rightarrow> int
     \<Rightarrow> element list \<Rightarrow> SVGItem list option \<times> scanner_state" where
  "onMessage serialize props action st now document =
     (if action = lit ''scanSVG'' then
        (case scanSVGElements st now document of
           (svgElements, st') \<Rightarrow>
             (Some (map (\<lambda>(index, svg).
                          \<lparr> item_id = index, outerHTML = serialize svg,
                            dimensions = getSVGDimensions (props svg) \<rparr>)
                        (enumerate 0 svgElements)),
              st'))
      else (None, st))"

text \<open>
  The vocabulary of the properties. The elements the scan keeps are those named \<open>svg\<close>
  that pass the test \<open>instanceof SVGElement\<close>. An element lies in the shadow of a host
  when it is in the tree of the host's shadow root, or in the shadow of a host in that
  tree that passes the test \<open>instanceof Element\<close>; a host in the tree of the document
  needs no test (line 73). The nodes of a page are all its elements, those of every
  shadow root and of every content document included. The frames of a page are foreign
  when every element of the content document of an \<open>iframe\<close> of the document has a
  realm other than the Scanner's, as the elements made in a frame have.
\<close>

definition is_svg :: "element \<Rightarrow> bool" where
  "is_svg e \<longleftrightarrow> localName e = lit ''svg'' \<and> instanceof_SVGElement e"

inductive in_shadow :: "element \<Rightarrow> element \<Rightarrow> bool" where
  own: "shadowRoot h = Some sr \<Longrightarrow> e \<in> set (descendants sr) \<Longrightarrow> in_shadow h e"
| nested: "shadowRoot h = Some sr \<Longrightarrow> h' \<in> set (descendants sr) \<Longrightarrow> instanceof_Element h'
           \<Longrightarrow> in_shadow h' e \<Longrightarrow> in_shadow h e"

definition in_tree_or_shadow :: "(element \<Rightarrow> bool) \<Rightarrow> element list \<Rightarrow> element \<Rightarrow> bool" where
  "in_tree_or_shadow host scope e \<longleftrightarrow>
     e \<in> set (descendants scope)
     \<or> (\<exists>h \<in> set (descendants scope). host h \<and> in_shadow h e)"

fun all_nodes :: "element \<Rightarrow> element list" where
  "all_nodes (Element u n s i cs sh fr) =
     Element u n s i cs sh fr # concat (map all_nodes cs)
     @ (case sh of None \<Rightarrow> [] | Some sr \<Rightarrow> concat (map all_nodes sr))
     @ (case fr of None \<Rightarrow> [] | Some d \<Rightarrow> concat (map all_nodes d))"

definition page_nodes :: "element list \<Rightarrow> element list" where
  "page_nodes document = concat (map all_nodes document)"

definition shadow_nodes :: "element \<Rightarrow> element list" where
  "shadow_nodes x = (case shadowRoot x of None \<Rightarrow> [] | Some sr \<Rightarrow> page_nodes sr)"

definition frame_nodes :: "element \<Rightarrow> element list" where
  "frame_nodes x = (case contentDocument x of None \<Rightarrow> [] | Some d \<Rightarrow> page_nodes d)"

definition foreign_frames :: "element list \<Rightarrow> bool" where
  "foreign_frames document =
     list_all (\<lambda>f. case contentDocument f of
                     None \<Rightarrow> True
                   | Some d \<Rightarrow> list_all (\<lambda>e. realm e \<noteq> 0) (descendants d))
       (querySelectorAll (TypeSelector (lit ''iframe'')) document)"

section \<open>Concrete platforms for the worked examples\<close>

text \<open>
  A platform whose decoder reports a 200 by 100 image for every data URL, whose PNG
  encoder is a fixed string, and whose number printer writes the decimal digits of a
  non-negative integer and the names of the values that are not finite, as JavaScript
  does.
\<close>

function digits :: "nat \<Rightarrow> jsstring" where
  "digits n = (if n < 10 then [48 + n] else digits (n div 10) @ [48 + n mod 10])"
  by pat_completeness auto
termination
  by (relation "measure id") auto

declare digits.simps [simp del]

fun decimal :: "number \<Rightarrow> jsstring" where
  "decimal (Finite r) = digits (nat (floor r))"
| "decimal NaN = lit ''NaN''"
| "decimal PosInfinity = lit ''Infinity''"
| "decimal NegInfinity = lit ''-Infinity''"

declare decimal.simps [simp del]

definition demo_root :: xml_element where
  "demo_root =
     \<lparr> xml_name = lit ''svg'',
       xml_attrs = [(lit ''viewBox'', lit ''0 0 24 24''), (lit ''fill'', lit ''none'')],
       xml_content = [] \<rparr>"

definition demo_platform :: platform where
  "demo_platform =
     \<lparr> parseFromString = (\<lambda>s. Some demo_root),
       serializeToString = (\<lambda>e. lit ''<svg/>''),
       decodeImage = (\<lambda>url. Some \<lparr> img_width = 200, img_height = 100 \<rparr>),
       getContext2d = True,
       toDataURL = (\<lambda>ops. lit ''data:image/png;base64,AAAA''),
       numToString = decimal,
       downloadRejects = (\<lambda>name. False) \<rparr>"

text \<open>
  The markup of an SVG element that declares the SVG namespace, as \<open>outerHTML\<close> gives
  it for an element written with the declaration, and the same markup with the
  declaration twice, which is not well-formed XML (an attribute name may appear once in
  a tag). The names of the attributes of the first tag of a text are read by a scan:
  after the tag name, each name runs up to its \<open>=\<close> (61), and each value is enclosed
  in double (34) or single (39) quotes; the tag ends at \<open>>\<close> (62) or \<open>/\<close> (47). A
  platform whose parser reports an error exactly when two attributes of the first tag
  have the same name.
\<close>

definition svg_declaring_xmlns :: jsstring where
  "svg_declaring_xmlns = svg_with_xmlns @ lit ''><rect/></svg>''"

definition svg_xmlns_twice :: jsstring where
  "svg_xmlns_twice =
     svg_with_xmlns @ lit '' xmlns='' @ [34] @ lit ''http://www.w3.org/2000/svg'' @ [34]
     @ lit ''><rect/></svg>''"

datatype tag_mode =
    InTagName
  | BeforeAttribute
  | InAttributeName
  | BeforeAttributeValue
  | InAttributeValue nat

fun start_tag_names :: "tag_mode \<Rightarrow> jsstring \<Rightarrow> jsstring list \<Rightarrow> jsstring \<Rightarrow> jsstring list" where
  "start_tag_names mode cur names [] = rev names"
| "start_tag_names InTagName cur names (c # cs) =
     (if c = 62 then rev names
      else if is_space c then start_tag_names BeforeAttribute [] names cs
      else start_tag_names InTagName [] names cs)"
| "start_tag_names BeforeAttribute cur names (c # cs) =
     (if c = 62 \<or> c = 47 then rev names
      else if is_space c then start_tag_names BeforeAttribute [] names cs
      else start_tag_names InAttributeName [c] names cs)"
| "start_tag_names InAttributeName cur names (c # cs) =
     (if c = 61 then start_tag_names BeforeAttributeValue [] (rev cur # names) cs
      else if c = 62 then rev names
      else start_tag_names InAttributeName (c # cur) names cs)"
| "start_tag_names BeforeAttributeValue cur names (c # cs) =
     (if c = 34 \<or> c = 39 then start_tag_names (InAttributeValue c) [] names cs
      else if c = 62 then rev names
      else start_tag_names BeforeAttributeValue [] names cs)"
| "start_tag_names (InAttributeValue q) cur names (c # cs) =
     (if c = q then start_tag_names BeforeAttribute [] names cs
      else start_tag_names (InAttributeValue q) [] names cs)"

definition root_attribute_names :: "jsstring \<Rightarrow> jsstring list" where
  "root_attribute_names t = start_tag_names InTagName [] [] t"

definition strict_platform :: platform where
  "strict_platform =
     demo_platform\<lparr> parseFromString :=
       (\<lambda>t. if distinct (root_attribute_names t) then Some demo_root else None) \<rparr>"

text \<open>
  Two discovered items, one whose own dimensions are those of a preset and one whose
  dimensions are not; a panel that has not scanned yet; and an environment in which the
  active tab has the id 7 and does not answer messages.
\<close>

definition icon16 :: SVGItem where
  "icon16 = \<lparr> item_id = 0, outerHTML = lit ''<svg/>'',
               dimensions = \<lparr> dims_width = 16, dims_height = 16 \<rparr> \<rparr>"

definition icon24 :: SVGItem where
  "icon24 = \<lparr> item_id = 3, outerHTML = lit ''<svg/>'',
               dimensions = \<lparr> dims_width = 24, dims_height = 24 \<rparr> \<rparr>"

definition idle_panel :: panel_state where
  "idle_panel = \<lparr> svgItems = [], isScanning = True, scanError = None, currentTabId = None \<rparr>"

definition offline_env :: scan_env where
  "offline_env = \<lparr> tabsQuery = Inr (Some 7), sendMessage = (\<lambda>tabId. Inl MessageFailed) \<rparr>"

text \<open>
  Three SVG elements: one with only a view box; one with no attributes, a computed
  width and height of zero, an empty bounding box and a padding that gives it a client
  area of 20 by 20; and a hidden sprite with \<open>width="0"\<close>, \<open>height="0"\<close> and a view
  box.
\<close>

definition svg_viewBox_only :: svg_props where
  "svg_viewBox_only =
     \<lparr> attr_width = None, attr_height = None, attr_viewBox = Some (lit ''0 0 10 20''),
       style_width = lit ''300px'', style_height = lit ''150px'', bbox = None,
       clientWidth = 300, clientHeight = 150 \<rparr>"

definition svg_zero_padded :: svg_props where
  "svg_zero_padded =
     \<lparr> attr_width = None, attr_height = None, attr_viewBox = None,
       style_width = lit ''0px'', style_height = lit ''0px'',
       bbox = Some (lit ''0'', lit ''0''), clientWidth = 20, clientHeight = 20 \<rparr>"

definition svg_sprite :: svg_props where
  "svg_sprite =
     \<lparr> attr_width = Some (lit ''0''), attr_height = Some (lit ''0''),
       attr_viewBox = Some (lit ''0 0 10 20''),
       style_width = lit ''0px'', style_height = lit ''0px'', bbox = None,
       clientWidth = 0, clientHeight = 0 \<rparr>"

text \<open>
  Two pages. The first has an SVG element in the document, one three shadow roots deep,
  one in the document of a frame (made in the realm of the frame, 1) and one more in the
  document. The second has one SVG element, in the document of a frame.
\<close>

definition svg_node :: "nat \<Rightarrow> element" where
  "svg_node u = Element u (lit ''svg'') True 0 [] None None"

definition shadow_host :: "nat \<Rightarrow> element list \<Rightarrow> element" where
  "shadow_host u sr = Element u (lit ''div'') False 0 [] (Some sr) None"

definition iframe_node :: "nat \<Rightarrow> element list \<Rightarrow> element" where
  "iframe_node u d = Element u (lit ''iframe'') False 0 [] None (Some d)"

definition framed_svg :: "nat \<Rightarrow> element" where
  "framed_svg u = Element u (lit ''svg'') True 1 [] None None"

definition deep_page :: "element list" where
  "deep_page =
     [Element 0 (lit ''html'') False 0
        [Element 1 (lit ''body'') False 0
           [svg_node 2,
            shadow_host 3 [shadow_host 4 [shadow_host 5 [svg_node 6]]],
            iframe_node 7 [framed_svg 8],
            svg_node 9]
           None None]
        None None]"

definition framed_page :: "element list" where
  "framed_page = [iframe_node 0 [framed_svg 1]]"

definition demo_record :: "nat \<Rightarrow> SVGItem" where
  "demo_record i = \<lparr> item_id = i, outerHTML = lit ''<svg/>'',
                     dimensions = \<lparr> dims_width = 10, dims_height = 20 \<rparr> \<rparr>"

text \<open>
  Two markups with line feeds, and a platform whose decoder accepts one data URL only.
  The second markup has a tab (9) after the first line feed, a title of three
  characters that are not ASCII (the last one a surrogate pair) and an \<open>xlink:href\<close>.
  A fragment that declares the XLink namespace.
\<close>

definition markup_two_lines :: jsstring where
  "markup_two_lines = lit ''<svg>'' @ [10] @ lit ''</svg>''"

definition markup_with_use :: jsstring where
  "markup_with_use =
     lit ''<svg>'' @ [10, 9] @ lit ''<title>'' @ [0xE9, 0x20AC, 0xD83D, 0xDE00]
     @ lit ''</title>'' @ [10] @ lit ''<use xlink:href='' @ [34] @ lit ''#a'' @ [34]
     @ lit ''/> </svg>''"

definition clean_with_use :: jsstring where
  "clean_with_use =
     svg_with_xmlns @ lit ''><title>'' @ [0xE9, 0x20AC, 0xD83D, 0xDE00]
     @ lit ''</title><use href='' @ [34] @ lit ''#a'' @ [34] @ lit ''/></svg>''"

definition xlink_declaration :: jsstring where
  "xlink_declaration =
     lit ''<g xmlns:xlink='' @ [34] @ lit ''http://www.w3.org/1999/xlink'' @ [34] @ lit ''/>''"

definition probe_platform :: "jsstring \<Rightarrow> platform" where
  "probe_platform url =
     demo_platform\<lparr> decodeImage :=
       (\<lambda>u. if u = url then Some \<lparr> img_width = 200, img_height = 100 \<rparr> else None) \<rparr>"

section \<open>Properties of the isolated-context rasterizer\<close>

lemma processImage_draw_unfold:
  assumes "0 < img_width img" and "0 < img_height img"
  shows "processImage_draw img (Finite W) (Finite H) =
     [SetImageSmoothingEnabled True, SetImageSmoothingQuality (lit ''high''),
      DrawImage img
        (Finite ((W - of_nat (img_width img)
              * min (W / of_nat (img_width img)) (H / of_nat (img_height img))) / 2))
        (Finite ((H - of_nat (img_height img)
              * min (W / of_nat (img_width img)) (H / of_nat (img_height img))) / 2))
        (Finite (of_nat (img_width img)
              * min (W / of_nat (img_width img)) (H / of_nat (img_height img))))
        (Finite (of_nat (img_height img)
              * min (W / of_nat (img_width img)) (H / of_nat (img_height img))))]"
  using assms by (simp add: processImage_draw_def Let_def)

lemma min_scale_fits:
  fixes W H w h :: rat
  assumes "0 < w" "0 < h"
  shows "w * min (W / w) (H / h) \<le> W" "h * min (W / w) (H / h) \<le> H"
  using assms by (auto simp: min_def field_simps)

lemma svgToBase64_demo:
  "svgToBase64 (lit ''<svg/>'') = Some (lit ''data:image/svg+xml;base64,PHN2Zy8+'')"
  by (simp add: svgToBase64_def lit_def b64_def b64chars_def)

text \<open>
  An image that reports a width and a height of zero: the scale is \<open>Infinity\<close>, the
  scaled sizes and the offsets are \<open>NaN\<close>, the image is drawn with them and the promise
  resolves with the PNG of the canvas.
\<close>

lemma processImage_empty_image:
  assumes "0 < W" and "0 < H"
    and "svgToBase64 markup = Some url"
    and "decodeImage P url = Some \<lparr> img_width = 0, img_height = 0 \<rparr>"
    and "getContext2d P"
  shows "processImage P markup (Finite W) (Finite H) =
     Inr (toDataURL P
       [SetCanvasWidth (Finite W), SetCanvasHeight (Finite H), SetImageSmoothingEnabled True,
        SetImageSmoothingQuality (lit ''high''),
        DrawImage \<lparr> img_width = 0, img_height = 0 \<rparr> NaN NaN NaN NaN])"
  using assms by (simp add: processImage_def processImage_draw_def Let_def)

text \<open>
  Claim C3. For a decoded image of width \<open>w > 0\<close> and height \<open>h > 0\<close> and a target box
  \<open>W\<close> by \<open>H\<close>, \<open>processImage\<close> draws the image once, scaled by the uniform factor
  \<open>s = min (W / w) (H / h)\<close>: the drawn region is \<open>w * s\<close> by \<open>h * s\<close>, which has the
  aspect ratio of the source, at the offsets \<open>((W - w * s) / 2, (H - h * s) / 2)\<close>, so
  that the two margins of each axis are equal (and not negative). No call fills the
  canvas: the background stays transparent. The target width and height are finite
  numbers, and finite numbers are exact rationals here.
\<close>

theorem processImage_uniform_scale_centred:
  fixes W H :: rat
  assumes "0 < img_width img" and "0 < img_height img"
    and "svgToBase64 markup = Some url" and "decodeImage P url = Some img"
    and "getContext2d P"
  shows "let w = of_nat (img_width img); h = of_nat (img_height img);
             s = min (W / w) (H / h); x = (W - w * s) / 2; y = (H - h * s) / 2
         in processImage P markup (Finite W) (Finite H) =
              Inr (toDataURL P
                [SetCanvasWidth (Finite W), SetCanvasHeight (Finite H),
                 SetImageSmoothingEnabled True, SetImageSmoothingQuality (lit ''high''),
                 DrawImage img (Finite x) (Finite y) (Finite (w * s)) (Finite (h * s))])
          \<and> processImage_draw img (Finite W) (Finite H) =
                [SetImageSmoothingEnabled True, SetImageSmoothingQuality (lit ''high''),
                 DrawImage img (Finite x) (Finite y) (Finite (w * s)) (Finite (h * s))]
          \<and> list_all (\<lambda>c. \<not> is_fill c) (processImage_draw img (Finite W) (Finite H))
          \<and> (w * s) * h = (h * s) * w
          \<and> (s \<noteq> 0 \<longrightarrow> (w * s) / (h * s) = w / h)
          \<and> x + w * s + x = W \<and> y + h * s + y = H
          \<and> 0 \<le> x \<and> 0 \<le> y"
proof -
  have w: "(0::rat) < of_nat (img_width img)" and h: "(0::rat) < of_nat (img_height img)"
    using assms(1,2) by simp_all
  have fit:
    "of_nat (img_width img)
       * min (W / of_nat (img_width img)) (H / of_nat (img_height img)) \<le> W"
    "of_nat (img_height img)
       * min (W / of_nat (img_width img)) (H / of_nat (img_height img)) \<le> H"
    using min_scale_fits[OF w h] by simp_all
  have run: "processImage P markup (Finite W) (Finite H) =
      Inr (toDataURL P ([SetCanvasWidth (Finite W), SetCanvasHeight (Finite H)]
                        @ processImage_draw img (Finite W) (Finite H)))"
    using assms by (simp add: processImage_def)
  have ratio:
    "min (W / of_nat (img_width img)) (H / of_nat (img_height img)) \<noteq> 0 \<longrightarrow>
      (of_nat (img_width img)
         * min (W / of_nat (img_width img)) (H / of_nat (img_height img))) /
      (of_nat (img_height img)
         * min (W / of_nat (img_width img)) (H / of_nat (img_height img)))
      = (of_nat (img_width img) :: rat) / of_nat (img_height img)"
    by simp
  show ?thesis
    unfolding Let_def run processImage_draw_unfold[OF assms(1,2)]
    using fit ratio by (simp add: field_simps)
qed

text \<open>
  A 200 by 100 image in a 100 by 100 box: the factor is one half, the image is drawn
  100 by 50 at the offsets (0, 25).
\<close>

theorem processImage_uniform_scale_centred_witness:
  "processImage demo_platform (lit ''<svg/>'') (Finite 100) (Finite 100) =
      Inr (toDataURL demo_platform
        [SetCanvasWidth (Finite 100), SetCanvasHeight (Finite 100),
         SetImageSmoothingEnabled True, SetImageSmoothingQuality (lit ''high''),
         DrawImage \<lparr> img_width = 200, img_height = 100 \<rparr>
           (Finite 0) (Finite 25) (Finite 100) (Finite 50)])
   \<and> processImage_draw \<lparr> img_width = 200, img_height = 100 \<rparr> (Finite 100) (Finite 100) =
        [SetImageSmoothingEnabled True, SetImageSmoothingQuality (lit ''high''),
         DrawImage \<lparr> img_width = 200, img_height = 100 \<rparr>
           (Finite 0) (Finite 25) (Finite 100) (Finite 50)]"
  using processImage_uniform_scale_centred
          [of "\<lparr> img_width = 200, img_height = 100 \<rparr>" "lit ''<svg/>''"
              "lit ''data:image/svg+xml;base64,PHN2Zy8+''" demo_platform 100 100]
        svgToBase64_demo
  by (simp add: demo_platform_def Let_def)

section \<open>Properties of the interactive rasterizer\<close>

lemma lit_names_distinct:
  "lit ''width'' \<noteq> lit ''height''" "lit ''width'' \<noteq> lit ''viewBox''"
  "lit ''height'' \<noteq> lit ''viewBox''"
  by (simp_all add: lit_def)

lemma getAttribute_setAttribute:
  "getAttribute (setAttribute e n v) m = (if m = n then Some v else getAttribute e m)"
  by (simp add: getAttribute_def setAttribute_def update_conv')

lemma set_update_distinct:
  "distinct (map fst al) \<Longrightarrow> (k, v') \<in> set (AList.update k v al) \<Longrightarrow> v' = v"
  by (metis distinct_update map_of_eq_Some_iff update_Some_unfold)

lemma decimal_48: "decimal (Finite 48) = lit ''48''"
  by (simp add: decimal.simps lit_def digits.simps)

text \<open>
  Claim C10. Whatever the markup and the target width \<open>W\<close> and height \<open>H\<close>, the element
  that \<open>svgToDataUrl\<close> serializes and encodes carries the attribute \<open>width\<close> with the
  string of \<open>W\<close>, \<open>height\<close> with the string of \<open>H\<close> and \<open>viewBox\<close> with \<open>0 0 W H\<close>; every
  other attribute is as parsed. With the attribute names of the parsed element distinct,
  as in every parsed document, no other \<open>viewBox\<close> value is left on it. The data URL is
  the base64 text of the serialization of that element.
\<close>

theorem svgToDataUrl_overwrites_size_and_viewBox:
  "getAttribute (svgToDataUrl_resized P e W H) (lit ''width'') = Some (numToString P W)
   \<and> getAttribute (svgToDataUrl_resized P e W H) (lit ''height'') = Some (numToString P H)
   \<and> getAttribute (svgToDataUrl_resized P e W H) (lit ''viewBox'')
       = Some (lit ''0 0 '' @ numToString P W @ lit '' '' @ numToString P H)
   \<and> (\<forall>n. n \<noteq> lit ''width'' \<and> n \<noteq> lit ''height'' \<and> n \<noteq> lit ''viewBox'' \<longrightarrow>
          getAttribute (svgToDataUrl_resized P e W H) n = getAttribute e n)
   \<and> (distinct (map fst (xml_attrs e)) \<longrightarrow>
        (\<forall>v. (lit ''viewBox'', v) \<in> set (xml_attrs (svgToDataUrl_resized P e W H)) \<longrightarrow>
           v = lit ''0 0 '' @ numToString P W @ lit '' '' @ numToString P H))
   \<and> (parseFromString P (cleanSvgString s) = Some e \<and>
        utf8 (serializeToString P (svgToDataUrl_resized P e W H)) = Some bytes \<longrightarrow>
        svgToDataUrl_src P s W H = Inr (lit ''data:image/svg+xml;base64,'' @ btoa bytes))"
proof -
  have a: "getAttribute (svgToDataUrl_resized P e W H) n =
      (if n = lit ''viewBox''
       then Some (lit ''0 0 '' @ numToString P W @ lit '' '' @ numToString P H)
       else if n = lit ''height'' then Some (numToString P H)
       else if n = lit ''width'' then Some (numToString P W)
       else getAttribute e n)" for n
    by (simp add: svgToDataUrl_resized_def getAttribute_setAttribute)
  have b: "distinct (map fst (xml_attrs e)) \<Longrightarrow>
      (lit ''viewBox'', v) \<in> set (xml_attrs (svgToDataUrl_resized P e W H)) \<Longrightarrow>
      v = lit ''0 0 '' @ numToString P W @ lit '' '' @ numToString P H" for v
    unfolding svgToDataUrl_resized_def setAttribute_def
    by (auto dest!: set_update_distinct[rotated] simp: distinct_update)
  have c: "parseFromString P (cleanSvgString s) = Some e \<Longrightarrow>
        utf8 (serializeToString P (svgToDataUrl_resized P e W H)) = Some bytes \<Longrightarrow>
        svgToDataUrl_src P s W H = Inr (lit ''data:image/svg+xml;base64,'' @ btoa bytes)"
    by (simp add: svgToDataUrl_src_def)
  show ?thesis
    using a b c lit_names_distinct by auto
qed

text \<open>
  A root element parsed with \<open>viewBox="0 0 24 24"\<close> and \<open>fill="none"\<close>, resized to 48
  by 48: the view box becomes \<open>0 0 48 48\<close>, the old one is gone, \<open>fill\<close> stays.
\<close>

theorem svgToDataUrl_overwrites_size_and_viewBox_witness:
  "getAttribute (svgToDataUrl_resized demo_platform demo_root (Finite 48) (Finite 48))
       (lit ''width'')
     = Some (lit ''48'')
   \<and> getAttribute (svgToDataUrl_resized demo_platform demo_root (Finite 48) (Finite 48))
       (lit ''viewBox'')
     = Some (lit ''0 0 48 48'')
   \<and> getAttribute (svgToDataUrl_resized demo_platform demo_root (Finite 48) (Finite 48))
       (lit ''fill'')
     = Some (lit ''none'')
   \<and> (lit ''viewBox'', lit ''0 0 24 24'')
       \<notin> set (xml_attrs (svgToDataUrl_resized demo_platform demo_root (Finite 48) (Finite 48)))
   \<and> svgToDataUrl_src demo_platform (lit ''<svg/>'') (Finite 48) (Finite 48)
     = Inr (lit ''data:image/svg+xml;base64,PHN2Zy8+'')"
proof -
  have d: "distinct (map fst (xml_attrs demo_root))"
    by (simp add: demo_root_def lit_def)
  have n: "numToString demo_platform (Finite 48) = lit ''48''"
    by (simp add: demo_platform_def decimal_48)
  have f: "lit ''fill'' \<noteq> lit ''width'' \<and> lit ''fill'' \<noteq> lit ''height''
           \<and> lit ''fill'' \<noteq> lit ''viewBox''"
    by (simp add: lit_def)
  have g: "getAttribute demo_root (lit ''fill'') = Some (lit ''none'')"
    by (simp add: getAttribute_def demo_root_def lit_def)
  have p: "parseFromString demo_platform (cleanSvgString (lit ''<svg/>'')) = Some demo_root"
    by (simp add: demo_platform_def)
  have u: "utf8 (serializeToString demo_platform
                  (svgToDataUrl_resized demo_platform demo_root (Finite 48) (Finite 48)))
           = Some (lit ''<svg/>'')"
    by (simp add: demo_platform_def lit_def)
  have e: "btoa (lit ''<svg/>'') = lit ''PHN2Zy8+''"
    by (simp add: lit_def b64_def b64chars_def)
  have l: "lit ''0 0 24 24'' \<noteq> lit ''0 0 48 48''"
    by (simp add: lit_def)
  have k: "lit ''data:image/svg+xml;base64,'' @ lit ''PHN2Zy8+''
           = lit ''data:image/svg+xml;base64,PHN2Zy8+''"
    by (simp add: lit_def)
  have j: "lit ''0 0 '' @ lit ''48'' @ lit '' '' @ lit ''48'' = lit ''0 0 48 48''"
    by (simp add: lit_def)
  show ?thesis
    using svgToDataUrl_overwrites_size_and_viewBox
            [of demo_platform demo_root "Finite 48" "Finite 48" "lit ''<svg/>''"
                "lit ''<svg/>''"]
          d n f g p u e l k j
    by auto
qed

text \<open>
  The normalisation of the markup that declares its namespace: line 101 puts a second
  declaration into the tag.
\<close>

lemma clean_svg_declaring_xmlns: "cleanSvgString svg_declaring_xmlns = svg_xmlns_twice"
  by (simp add: cleanSvgString_def svg_declaring_xmlns_def svg_xmlns_twice_def
        replace_newlines_def lit_def is_space_def tag_gap_def svg_with_xmlns_def)

lemma names_svg_xmlns_twice:
  "root_attribute_names svg_xmlns_twice = [lit ''xmlns'', lit ''xmlns'']"
  by (simp add: root_attribute_names_def svg_xmlns_twice_def svg_with_xmlns_def lit_def
        is_space_def)

text \<open>
  Claim C6, evaluated where it fails. The markup
  \<open><svg xmlns="http://www.w3.org/2000/svg"><rect/></svg>\<close> is valid. \<open>cleanSvgString\<close>
  turns it into a text with two \<open>xmlns\<close> attributes in the root tag; on a platform
  whose parser reports an error for that text, \<open>svgToDataUrl\<close> rejects with the parse
  failure for every target width and height: no canvas is made, nothing is filled and
  nothing is drawn. Where \<open>svgToDataUrl\<close> does get to the canvas, the calls are the ones
  of the claim: the canvas is sized to \<open>W\<close> by \<open>H\<close>, the fill style is set to white, the
  rectangle from the origin with width \<open>W\<close> and height \<open>H\<close> is filled, and the decoded
  image is drawn at the origin with width \<open>W\<close> and height \<open>H\<close>, whatever its own size.
\<close>

theorem svgToDataUrl_rejects_declared_xmlns:
  assumes "parseFromString P svg_xmlns_twice = None"
  shows "cleanSvgString svg_declaring_xmlns = svg_xmlns_twice
       \<and> svgToDataUrl P svg_declaring_xmlns W H = Inl SvgParseFailed
       \<and> (\<forall>s e bytes img.
             parseFromString P (cleanSvgString s) = Some e \<and>
             utf8 (serializeToString P (svgToDataUrl_resized P e W H)) = Some bytes \<and>
             decodeImage P (lit ''data:image/svg+xml;base64,'' @ btoa bytes) = Some img \<and>
             getContext2d P \<longrightarrow>
               svgToDataUrl P s W H =
                 Inr (toDataURL P
                   [SetCanvasWidth W, SetCanvasHeight H, SetFillStyle (lit ''white''),
                    FillRect (Finite 0) (Finite 0) W H,
                    DrawImage img (Finite 0) (Finite 0) W H]))
       \<and> (\<forall>s png. svgToDataUrl P s W H = Inr png \<longrightarrow>
             (\<exists>img. png = toDataURL P
                [SetCanvasWidth W, SetCanvasHeight H, SetFillStyle (lit ''white''),
                 FillRect (Finite 0) (Finite 0) W H,
                 DrawImage img (Finite 0) (Finite 0) W H]))"
proof -
  have r: "svgToDataUrl P svg_declaring_xmlns W H = Inl SvgParseFailed"
    using assms by (simp add: svgToDataUrl_def svgToDataUrl_src_def clean_svg_declaring_xmlns)
  have c: "parseFromString P (cleanSvgString s) = Some e \<Longrightarrow>
           utf8 (serializeToString P (svgToDataUrl_resized P e W H)) = Some bytes \<Longrightarrow>
           decodeImage P (lit ''data:image/svg+xml;base64,'' @ btoa bytes) = Some img \<Longrightarrow>
           getContext2d P \<Longrightarrow>
             svgToDataUrl P s W H =
               Inr (toDataURL P
                 [SetCanvasWidth W, SetCanvasHeight H, SetFillStyle (lit ''white''),
                  FillRect (Finite 0) (Finite 0) W H,
                  DrawImage img (Finite 0) (Finite 0) W H])" for s e bytes img
    by (simp add: svgToDataUrl_def svgToDataUrl_src_def svgToDataUrl_draw_def)
  have d: "svgToDataUrl P s W H = Inr png \<Longrightarrow>
           \<exists>img. png = toDataURL P
              [SetCanvasWidth W, SetCanvasHeight H, SetFillStyle (lit ''white''),
               FillRect (Finite 0) (Finite 0) W H,
               DrawImage img (Finite 0) (Finite 0) W H]" for s png
    by (auto simp: svgToDataUrl_def svgToDataUrl_src_def svgToDataUrl_draw_def
             split: option.splits sum.splits if_splits)
  show ?thesis
    using r c d clean_svg_declaring_xmlns by blast
qed

text \<open>
  On the platform whose parser checks the attribute names of the root tag, the markup
  that declares its namespace is rejected, and the same markup without the declaration
  is drawn: a 200 by 100 image stretched over a 48 by 48 canvas that was filled white.
\<close>

theorem svgToDataUrl_rejects_declared_xmlns_witness:
  "root_attribute_names svg_xmlns_twice = [lit ''xmlns'', lit ''xmlns'']
   \<and> svgToDataUrl strict_platform svg_declaring_xmlns (Finite 48) (Finite 48)
       = Inl SvgParseFailed
   \<and> svgToDataUrl strict_platform (lit ''<svg><rect/></svg>'') (Finite 48) (Finite 48) =
       Inr (toDataURL strict_platform
         [SetCanvasWidth (Finite 48), SetCanvasHeight (Finite 48),
          SetFillStyle (lit ''white''), FillRect (Finite 0) (Finite 0) (Finite 48) (Finite 48),
          DrawImage \<lparr> img_width = 200, img_height = 100 \<rparr>
            (Finite 0) (Finite 0) (Finite 48) (Finite 48)])"
proof -
  have n: "parseFromString strict_platform svg_xmlns_twice = None"
    by (simp add: strict_platform_def names_svg_xmlns_twice lit_def)
  have k: "cleanSvgString (lit ''<svg><rect/></svg>'') = svg_with_xmlns @ lit ''><rect/></svg>''"
    by (simp add: cleanSvgString_def replace_newlines_def lit_def is_space_def tag_gap_def
          svg_with_xmlns_def)
  have m: "root_attribute_names (svg_with_xmlns @ lit ''><rect/></svg>'') = [lit ''xmlns'']"
    by (simp add: root_attribute_names_def svg_with_xmlns_def lit_def is_space_def)
  have p: "parseFromString strict_platform (cleanSvgString (lit ''<svg><rect/></svg>''))
           = Some demo_root"
    by (simp add: strict_platform_def k m)
  have u: "utf8 (serializeToString strict_platform
                  (svgToDataUrl_resized strict_platform demo_root (Finite 48) (Finite 48)))
           = Some (lit ''<svg/>'')"
    by (simp add: strict_platform_def demo_platform_def lit_def)
  have i: "decodeImage strict_platform
             (lit ''data:image/svg+xml;base64,'' @ btoa (lit ''<svg/>''))
           = Some \<lparr> img_width = 200, img_height = 100 \<rparr>"
    by (simp add: strict_platform_def demo_platform_def)
  have c: "getContext2d strict_platform"
    by (simp add: strict_platform_def demo_platform_def)
  show ?thesis
    using svgToDataUrl_rejects_declared_xmlns
            [OF n, of "Finite 48" "Finite 48"]
          names_svg_xmlns_twice p u i c
    by blast
qed

section \<open>Properties of the panel\<close>

lemma download_single_first:
  "\<exists>rest. snd (download_single P svg a b) = Rasterize (outerHTML svg) a b # rest"
  by (auto simp: download_single_def split: sum.splits)

lemma png_filename_nan:
  "png_filename demo_platform 3 NaN (Finite 10) = lit ''svg_3_NaNx10.png''"
  by (simp add: png_filename_def demo_platform_def decimal.simps digits.simps lit_def)

lemma svgToDataUrl_demo:
  "svgToDataUrl demo_platform m w h = Inr (lit ''data:image/png;base64,AAAA'')"
proof -
  have u: "utf8 (lit ''<svg/>'') = Some (lit ''<svg/>'')" by (simp add: lit_def)
  show ?thesis
    by (simp add: svgToDataUrl_def svgToDataUrl_src_def demo_platform_def u)
qed

text \<open>
  Claim C5, evaluated where it fails. When the selected size is the custom one (width
  \<open>-2\<close>), \<open>handleDownload\<close> ends with the error of an invalid custom size, and has
  called neither the rasterizer nor the download, when no custom size is stored for the
  item or when \<open><= 0\<close> holds of its width or of its height (a width of 0 in
  particular). A width that is \<open>NaN\<close> is not strictly positive, but \<open>NaN <= 0\<close> is
  false: with such a width and a height of which \<open><= 0\<close> is false, the rasterizer is
  called first, with \<open>NaN\<close> as the width.
\<close>

theorem handleDownload_custom_nan_rasterized:
  assumes "selected = Some sz" and "p_width sz = - 2"
  shows "(custom = None
          \<or> (\<exists>c. custom = Some c
                \<and> (num_le (cs_width c) (Finite 0) \<or> num_le (cs_height c) (Finite 0))) \<longrightarrow>
            handleDownload P selected custom svg = (Some InvalidCustomSize, []))
       \<and> (\<forall>c. custom = Some c \<and> cs_width c = NaN \<and> \<not> num_le (cs_height c) (Finite 0) \<longrightarrow>
            handleDownload P selected custom svg
              = download_single P svg NaN (cs_height c)
            \<and> (\<exists>rest. snd (handleDownload P selected custom svg)
                       = Rasterize (outerHTML svg) NaN (cs_height c) # rest))"
proof -
  have sel: "handleDownload P selected cu svg =
      (case cu of
         None \<Rightarrow> (Some InvalidCustomSize, [])
       | Some customSize \<Rightarrow>
           if num_le (cs_width customSize) (Finite 0)
              \<or> num_le (cs_height customSize) (Finite 0)
           then (Some InvalidCustomSize, [])
           else download_single P svg (cs_width customSize) (cs_height customSize))" for cu
    using assms by (simp add: handleDownload_def)
  have nan: "\<not> num_le NaN (Finite 0)" by simp
  show ?thesis
    using download_single_first[of P svg NaN] nan
    by (auto simp: sel)
qed

text \<open>
  A stored custom size of 0 by 50 is rejected with nothing done, and so is a missing
  one; one of \<open>NaN\<close> by 10 is rasterized and saved as \<open>svg_3_NaNx10.png\<close>.
\<close>

theorem handleDownload_custom_nan_rasterized_witness:
  "handleDownload demo_platform (Some (PRESET_SIZES ! 6))
      (Some \<lparr> cs_width = Finite 0, cs_height = Finite 50, keepRatio = False \<rparr>) icon24
     = (Some InvalidCustomSize, [])
   \<and> handleDownload demo_platform (Some (PRESET_SIZES ! 6)) None icon24
     = (Some InvalidCustomSize, [])
   \<and> handleDownload demo_platform (Some (PRESET_SIZES ! 6))
        (Some \<lparr> cs_width = NaN, cs_height = Finite 10, keepRatio = True \<rparr>) icon24
     = (None,
        [Rasterize (lit ''<svg/>'') NaN (Finite 10),
         Download (DataUrl (lit ''data:image/png;base64,AAAA''))
           (lit ''svg_3_NaNx10.png'') True])"
proof -
  have w: "p_width (PRESET_SIZES ! 6) = - 2"
    by (simp add: PRESET_SIZES_def)
  have i: "item_id icon24 = 3" "outerHTML icon24 = lit ''<svg/>''"
    by (simp_all add: icon24_def)
  have r: "downloadRejects demo_platform n = False" for n
    by (simp add: demo_platform_def)
  have d: "download_single demo_platform icon24 NaN (Finite 10)
     = (None,
        [Rasterize (lit ''<svg/>'') NaN (Finite 10),
         Download (DataUrl (lit ''data:image/png;base64,AAAA''))
           (lit ''svg_3_NaNx10.png'') True])"
    by (simp add: download_single_def svgToDataUrl_demo i r png_filename_nan)
  show ?thesis
    using handleDownload_custom_nan_rasterized
            [OF refl w,
             of "Some \<lparr> cs_width = Finite 0, cs_height = Finite 50, keepRatio = False \<rparr>"
               demo_platform icon24]
          handleDownload_custom_nan_rasterized[OF refl w, of None demo_platform icon24]
          handleDownload_custom_nan_rasterized
            [OF refl w,
             of "Some \<lparr> cs_width = NaN, cs_height = Finite 10, keepRatio = True \<rparr>"
               demo_platform icon24]
          d
    by simp
qed

lemma update_fresh: "k \<notin> fst ` set al \<Longrightarrow> AList.update k v al = al @ [(k, v)]"
  by (induction al) auto

lemma add_entries_distinct:
  "add_entries P svg ts z = Inr z' \<Longrightarrow> distinct (map fst z) \<Longrightarrow> distinct (map fst z')"
  by (induction P svg ts z rule: add_entries.induct)
     (auto split: sum.splits simp: distinct_update)

lemma add_entries_names:
  "add_entries P svg ts z = Inr z' \<Longrightarrow>
     set (map fst z') =
       set (map fst z)
       \<union> (\<lambda>(w, h). png_filename P (item_id svg) (Finite w) (Finite h)) ` set ts"
proof (induction P svg ts z rule: add_entries.induct)
  case (1 P svg entries)
  then show ?case by simp
next
  case (2 P svg w h rest entries)
  then obtain u where u: "svgToDataUrl P (outerHTML svg) (Finite w) (Finite h) = Inr u"
    by (auto split: sum.splits)
  with 2 show ?case
    by (auto simp: update_keys split: if_splits)
qed

lemma add_entries_succeeds:
  "(\<forall>t \<in> set ts. \<exists>u. svgToDataUrl P (outerHTML svg) (Finite (fst t)) (Finite (snd t))
                              = Inr u) \<Longrightarrow>
     \<exists>z'. add_entries P svg ts z = Inr z'"
  by (induction P svg ts z rule: add_entries.induct) (auto split: sum.splits)

lemma add_entries_fails:
  "(\<exists>t \<in> set ts. \<exists>e. svgToDataUrl P (outerHTML svg) (Finite (fst t)) (Finite (snd t))
                              = Inl e) \<Longrightarrow>
     \<exists>e. add_entries P svg ts z = Inl e"
  by (induction P svg ts z rule: add_entries.induct) (auto split: sum.splits)

lemma add_entries_fresh:
  "add_entries P svg ts z = Inr z' \<Longrightarrow>
   distinct (map (\<lambda>(w, h). png_filename P (item_id svg) (Finite w) (Finite h)) ts) \<Longrightarrow>
   (\<lambda>(w, h). png_filename P (item_id svg) (Finite w) (Finite h)) ` set ts \<inter> fst ` set z = {} \<Longrightarrow>
   z' = z @ map (\<lambda>(w, h). (png_filename P (item_id svg) (Finite w) (Finite h),
                  case svgToDataUrl P (outerHTML svg) (Finite w) (Finite h) of
                    Inl e \<Rightarrow> None | Inr u \<Rightarrow> nth_opt (split_on 44 u) 1)) ts"
proof (induction P svg ts z rule: add_entries.induct)
  case (1 P svg entries)
  then show ?case by simp
next
  case (2 P svg w h rest entries)
  then obtain u where u: "svgToDataUrl P (outerHTML svg) (Finite w) (Finite h) = Inr u"
    by (auto split: sum.splits)
  have fresh: "png_filename P (item_id svg) (Finite w) (Finite h) \<notin> fst ` set entries"
    using 2(4) by auto
  have upd: "AList.update (png_filename P (item_id svg) (Finite w) (Finite h))
               (nth_opt (split_on 44 u) 1) entries
             = entries @ [(png_filename P (item_id svg) (Finite w) (Finite h),
                           nth_opt (split_on 44 u) 1)]"
    using fresh by (rule update_fresh)
  have "z' = (entries @ [(png_filename P (item_id svg) (Finite w) (Finite h),
                          nth_opt (split_on 44 u) 1)])
            @ map (\<lambda>(w, h). (png_filename P (item_id svg) (Finite w) (Finite h),
                  case svgToDataUrl P (outerHTML svg) (Finite w) (Finite h) of
                    Inl e \<Rightarrow> None | Inr u \<Rightarrow> nth_opt (split_on 44 u) 1)) rest"
    using 2 u upd by (auto simp: image_iff)
  then show ?case using u by simp
qed

lemma targets_unfold:
  "map (preset_target svg) (filter (\<lambda>sz. 0 \<le> p_width sz) PRESET_SIZES) =
     [(16, 16), (32, 32), (48, 48), (128, 128),
      (dims_width (dimensions svg), dims_height (dimensions svg))]"
  by (simp add: PRESET_SIZES_def preset_target_def)

lemma names_demo:
  "png_filename demo_platform 0 (Finite 16) (Finite 16) = lit ''svg_0_16x16.png''"
  "png_filename demo_platform 0 (Finite 32) (Finite 32) = lit ''svg_0_32x32.png''"
  "png_filename demo_platform 0 (Finite 48) (Finite 48) = lit ''svg_0_48x48.png''"
  "png_filename demo_platform 0 (Finite 128) (Finite 128) = lit ''svg_0_128x128.png''"
  "zip_filename demo_platform 0 = lit ''svg_0_all_sizes.zip''"
  "png_filename demo_platform 3 (Finite 16) (Finite 16) = lit ''svg_3_16x16.png''"
  "png_filename demo_platform 3 (Finite 32) (Finite 32) = lit ''svg_3_32x32.png''"
  "png_filename demo_platform 3 (Finite 48) (Finite 48) = lit ''svg_3_48x48.png''"
  "png_filename demo_platform 3 (Finite 128) (Finite 128) = lit ''svg_3_128x128.png''"
  "png_filename demo_platform 3 (Finite 24) (Finite 24) = lit ''svg_3_24x24.png''"
  "zip_filename demo_platform 3 = lit ''svg_3_all_sizes.zip''"
  by (simp_all add: png_filename_def zip_filename_def demo_platform_def decimal.simps
        digits.simps lit_def)

lemma payload_demo:
  "nth_opt (split_on 44 (lit ''data:image/png;base64,AAAA'')) (Suc 0) = Some (lit ''AAAA'')"
  by (simp add: nth_opt_def lit_def)

text \<open>
  Claim C4 as stated fails for an item whose own dimensions are those of a preset: for
  an item of 16 by 16 the fifth PNG is stored under the name of the first, and the
  archive holds four entries.
\<close>

theorem downloadAllSizes_five_entries_counterexample:
  "downloadAllSizes demo_platform icon16 =
     (Inr (),
      [Rasterize (lit ''<svg/>'') (Finite 16) (Finite 16),
       Rasterize (lit ''<svg/>'') (Finite 32) (Finite 32),
       Rasterize (lit ''<svg/>'') (Finite 48) (Finite 48),
       Rasterize (lit ''<svg/>'') (Finite 128) (Finite 128),
       Rasterize (lit ''<svg/>'') (Finite 16) (Finite 16),
       Download
         (ZipBlob
            [(lit ''svg_0_16x16.png'', Some (lit ''AAAA'')),
             (lit ''svg_0_32x32.png'', Some (lit ''AAAA'')),
             (lit ''svg_0_48x48.png'', Some (lit ''AAAA'')),
             (lit ''svg_0_128x128.png'', Some (lit ''AAAA''))])
         (lit ''svg_0_all_sizes.zip'') True])"
proof -
  have t: "map (preset_target icon16) (filter (\<lambda>sz. 0 \<le> p_width sz) PRESET_SIZES) =
     [(16, 16), (32, 32), (48, 48), (128, 128), (16, 16)]"
    by (simp add: targets_unfold icon16_def)
  have i: "item_id icon16 = 0" "outerHTML icon16 = lit ''<svg/>''"
    by (simp_all add: icon16_def)
  have r: "downloadRejects demo_platform n = False" for n
    by (simp add: demo_platform_def)
  have d: "lit ''svg_0_16x16.png'' \<noteq> lit ''svg_0_32x32.png''"
    "lit ''svg_0_16x16.png'' \<noteq> lit ''svg_0_48x48.png''"
    "lit ''svg_0_16x16.png'' \<noteq> lit ''svg_0_128x128.png''"
    "lit ''svg_0_32x32.png'' \<noteq> lit ''svg_0_48x48.png''"
    "lit ''svg_0_32x32.png'' \<noteq> lit ''svg_0_128x128.png''"
    "lit ''svg_0_48x48.png'' \<noteq> lit ''svg_0_128x128.png''"
    by (simp_all add: lit_def)
  show ?thesis
    unfolding downloadAllSizes_def Let_def t
    by (simp add: i r d d[symmetric] svgToDataUrl_demo names_demo payload_demo)
qed

text \<open>
  Claim C4, as the code has it. For every item the archive export calls the rasterizer
  once for each preset whose width is not negative, in the order 16 by 16, 32 by 32,
  48 by 48, 128 by 128 and, for the zero preset, the item's own dimensions. If the five
  calls succeed, each PNG is stored under \<open>svg_<id>_<width>x<height>.png\<close>, a later entry
  of the same name replacing the earlier one: the archive holds one entry for each
  distinct name, at most five, and exactly the five in order when the five names differ.
  It is saved with one download named \<open>svg_<id>_all_sizes.zip\<close>. If a call fails, nothing
  is downloaded and the error is returned.
\<close>

theorem downloadAllSizes_archive:
  assumes ts: "ts = [(16, 16), (32, 32), (48, 48), (128, 128),
                     (dims_width (dimensions svg), dims_height (dimensions svg))]"
    and calls: "calls = map (\<lambda>(w, h). Rasterize (outerHTML svg) (Finite w) (Finite h)) ts"
    and name: "name = (\<lambda>(w, h). png_filename P (item_id svg) (Finite w) (Finite h))"
    and payload: "payload = (\<lambda>(w, h). case svgToDataUrl P (outerHTML svg) (Finite w) (Finite h) of
                       Inl e \<Rightarrow> None | Inr u \<Rightarrow> nth_opt (split_on 44 u) 1)"
  shows
    "((\<forall>t \<in> set ts. \<exists>u. svgToDataUrl P (outerHTML svg) (Finite (fst t)) (Finite (snd t))
                              = Inr u) \<longrightarrow>
        (\<exists>entries.
           downloadAllSizes P svg =
             (if downloadRejects P (zip_filename P (item_id svg)) then Inl MessageFailed
              else Inr (),
              calls @ [Download (ZipBlob entries) (zip_filename P (item_id svg)) True])
           \<and> distinct (map fst entries)
           \<and> set (map fst entries) = name ` set ts
           \<and> length entries \<le> 5
           \<and> (distinct (map name ts) \<longrightarrow> entries = map (\<lambda>t. (name t, payload t)) ts)))
     \<and> ((\<exists>t \<in> set ts. \<exists>e. svgToDataUrl P (outerHTML svg) (Finite (fst t)) (Finite (snd t))
                              = Inl e) \<longrightarrow>
          (\<exists>e. downloadAllSizes P svg = (Inl e, calls)))"
proof (intro conjI impI)
  have tg: "map (preset_target svg) (filter (\<lambda>sz. 0 \<le> p_width sz) PRESET_SIZES) = ts"
    unfolding ts by (rule targets_unfold)
  {
    assume ok: "\<forall>t \<in> set ts. \<exists>u. svgToDataUrl P (outerHTML svg) (Finite (fst t)) (Finite (snd t))
                              = Inr u"
    then obtain z where z: "add_entries P svg ts [] = Inr z"
      using add_entries_succeeds[of ts P svg "[]"] by blast
    have d: "distinct (map fst z)"
      using add_entries_distinct[OF z] by simp
    have n: "set (map fst z) = name ` set ts"
      using add_entries_names[OF z] by (simp add: name)
    have "length z = card (set (map fst z))"
      using d distinct_card[of "map fst z"] by simp
    also have "\<dots> \<le> length ts"
      unfolding n by (metis card_image_le card_length le_trans List.finite_set)
    finally have l: "length z \<le> 5" by (simp add: ts)
    have f: "distinct (map name ts) \<longrightarrow> z = map (\<lambda>t. (name t, payload t)) ts"
    proof
      assume "distinct (map name ts)"
      then have "z = [] @ map (\<lambda>(w, h). (png_filename P (item_id svg) (Finite w) (Finite h),
                  case svgToDataUrl P (outerHTML svg) (Finite w) (Finite h) of
                    Inl e \<Rightarrow> None | Inr u \<Rightarrow> nth_opt (split_on 44 u) 1)) ts"
        using add_entries_fresh[OF z] by (simp add: name)
      then show "z = map (\<lambda>t. (name t, payload t)) ts"
        by (simp add: name payload case_prod_unfold)
    qed
    have run: "downloadAllSizes P svg =
             (if downloadRejects P (zip_filename P (item_id svg)) then Inl MessageFailed
              else Inr (),
              calls @ [Download (ZipBlob z) (zip_filename P (item_id svg)) True])"
      unfolding downloadAllSizes_def Let_def tg by (simp add: z calls)
    show "\<exists>entries.
           downloadAllSizes P svg =
             (if downloadRejects P (zip_filename P (item_id svg)) then Inl MessageFailed
              else Inr (),
              calls @ [Download (ZipBlob entries) (zip_filename P (item_id svg)) True])
           \<and> distinct (map fst entries)
           \<and> set (map fst entries) = name ` set ts
           \<and> length entries \<le> 5
           \<and> (distinct (map name ts) \<longrightarrow> entries = map (\<lambda>t. (name t, payload t)) ts)"
      using run d n l f by blast
  }
  {
    assume "\<exists>t \<in> set ts. \<exists>e. svgToDataUrl P (outerHTML svg) (Finite (fst t)) (Finite (snd t))
                              = Inl e"
    then obtain e where e: "add_entries P svg ts [] = Inl e"
      using add_entries_fails[of ts P svg "[]"] by blast
    show "\<exists>e. downloadAllSizes P svg = (Inl e, calls)"
      unfolding downloadAllSizes_def Let_def tg by (simp add: e calls)
  }
qed

text \<open>An item of 24 by 24: five entries.\<close>

theorem downloadAllSizes_archive_witness:
  "downloadAllSizes demo_platform icon24 =
     (Inr (),
      [Rasterize (lit ''<svg/>'') (Finite 16) (Finite 16),
       Rasterize (lit ''<svg/>'') (Finite 32) (Finite 32),
       Rasterize (lit ''<svg/>'') (Finite 48) (Finite 48),
       Rasterize (lit ''<svg/>'') (Finite 128) (Finite 128),
       Rasterize (lit ''<svg/>'') (Finite 24) (Finite 24),
       Download
         (ZipBlob
            [(lit ''svg_3_16x16.png'', Some (lit ''AAAA'')),
             (lit ''svg_3_32x32.png'', Some (lit ''AAAA'')),
             (lit ''svg_3_48x48.png'', Some (lit ''AAAA'')),
             (lit ''svg_3_128x128.png'', Some (lit ''AAAA'')),
             (lit ''svg_3_24x24.png'', Some (lit ''AAAA''))])
         (lit ''svg_3_all_sizes.zip'') True])"
proof -
  have i: "item_id icon24 = 3" "outerHTML icon24 = lit ''<svg/>''"
    "dimensions icon24 = \<lparr> dims_width = 24, dims_height = 24 \<rparr>"
    by (simp_all add: icon24_def)
  have r: "downloadRejects demo_platform n = False" for n
    by (simp add: demo_platform_def)
  have d: "distinct [lit ''svg_3_16x16.png'', lit ''svg_3_32x32.png'',
     lit ''svg_3_48x48.png'', lit ''svg_3_128x128.png'', lit ''svg_3_24x24.png'']"
    by (simp add: lit_def)
  obtain entries where
    run: "downloadAllSizes demo_platform icon24 =
             (Inr (),
              [Rasterize (lit ''<svg/>'') (Finite 16) (Finite 16),
               Rasterize (lit ''<svg/>'') (Finite 32) (Finite 32),
               Rasterize (lit ''<svg/>'') (Finite 48) (Finite 48),
               Rasterize (lit ''<svg/>'') (Finite 128) (Finite 128),
               Rasterize (lit ''<svg/>'') (Finite 24) (Finite 24),
               Download (ZipBlob entries) (lit ''svg_3_all_sizes.zip'') True])"
    and e: "entries = [(lit ''svg_3_16x16.png'', Some (lit ''AAAA'')),
             (lit ''svg_3_32x32.png'', Some (lit ''AAAA'')),
             (lit ''svg_3_48x48.png'', Some (lit ''AAAA'')),
             (lit ''svg_3_128x128.png'', Some (lit ''AAAA'')),
             (lit ''svg_3_24x24.png'', Some (lit ''AAAA''))]"
    using downloadAllSizes_archive[where P = demo_platform and svg = icon24,
            OF refl refl refl refl] d
    by (auto simp: i r svgToDataUrl_demo names_demo payload_demo)
  show ?thesis using run e by simp
qed

section \<open>Properties of the initial scan\<close>

text \<open>
  The loop on its own: an operation that throws every time is attempted three times,
  with waits of 1000 and 2000 milliseconds, and the last error is thrown.
\<close>

lemma retry_three_failures:
  "retryOnError (\<lambda>s. (Inl e, s)) 3 s =
     (Inl e, s, [Attempt 0, Wait 1000, Attempt 1, Wait 2000, Attempt 2])"
  by (simp add: retryOnError_def retry_from.simps)

text \<open>
  \<open>scanSVGs\<close> catches every failure itself, so the loop around it sees a success at the
  first attempt, whatever the environment.
\<close>

lemma initial_scan_single_attempt:
  "initial_scan env st = (Inr (), scanSVGs env st, [Attempt 0])"
  by (simp add: initial_scan_def retryOnError_def retry_from.simps)

text \<open>
  Claim C9, evaluated where it fails. The panel opens while the tab does not answer
  messages: the scan fails, \<open>scanSVGs\<close> records the error and returns normally, and
  \<open>retryOnError\<close> stops after one attempt, without a wait and without an error to
  propagate. An operation that throws is attempted three times with waits of one and
  two seconds; \<open>scanSVGs\<close> never throws.
\<close>

theorem initial_scan_failure_not_retried:
  "initial_scan offline_env idle_panel =
     (Inr (),
      \<lparr> svgItems = [], isScanning = False, scanError = Some MessageFailed,
        currentTabId = Some 7 \<rparr>,
      [Attempt 0])
   \<and> retryOnError (\<lambda>s. (Inl MessageFailed, s)) 3 idle_panel =
     (Inl MessageFailed, idle_panel,
      [Attempt 0, Wait 1000, Attempt 1, Wait 2000, Attempt 2])"
  by (simp add: initial_scan_single_attempt retry_three_failures scanSVGs_def
        offline_env_def idle_panel_def)

theorem initial_scan_failure_not_retried_witness:
  "snd (snd (initial_scan offline_env idle_panel)) = [Attempt 0]
   \<and> scanError (fst (snd (initial_scan offline_env idle_panel))) = Some MessageFailed"
  using initial_scan_failure_not_retried by simp

section \<open>Properties of the resolved dimensions\<close>

lemma parseFloat_nonneg:
  assumes "parseFloat_digits_dots s = Some r"
  shows "0 \<le> r"
proof -
  obtain a b :: nat and n :: nat where "r = of_nat a + of_nat b / 10 ^ n"
    using assms unfolding parseFloat_digits_dots_def Let_def
    by (metis option.distinct(1) option.inject)
  then show ?thesis by simp
qed

lemma parseSize_nonneg:
  assumes "parseSize v = Some r"
  shows "0 \<le> r"
proof (cases v)
  case None
  then show ?thesis using assms by (simp add: parseSize_def)
next
  case (Some s)
  then show ?thesis
    using assms parseFloat_nonneg[of "takeWhile (\<lambda>c. is_digit c \<or> c = 46) s" r]
    by (simp add: parseSize_def Let_def split: if_splits)
qed

lemma resolve_axis_pos:
  assumes "\<And>r. parsed = Some r \<Longrightarrow> 0 \<le> r"
  shows "0 < resolve_axis parsed client"
proof (cases parsed)
  case None
  then show ?thesis by (simp add: resolve_axis_def)
next
  case (Some r)
  then have "0 \<le> r" using assms by simp
  then have "r \<noteq> 0 \<Longrightarrow> 0 < r" by linarith
  then show ?thesis using Some by (simp add: resolve_axis_def)
qed

lemma getSVGDimensions_positive:
  "0 < dims_width (getSVGDimensions svg)" "0 < dims_height (getSVGDimensions svg)"
  by (simp_all add: getSVGDimensions_def resolve_axis_pos parseSize_nonneg)

lemma steps_keep:
  "both_present wh \<Longrightarrow> from_viewBox svg wh = wh"
  "both_present wh \<Longrightarrow> from_style svg wh = wh"
  "both_present wh \<Longrightarrow> from_bbox svg wh = wh"
  by (simp_all add: both_present_def from_viewBox_def from_style_def from_bbox_def)

lemma from_viewBox_missing:
  "\<not> both_present wh \<Longrightarrow>
     from_viewBox svg wh = (case viewBox_candidate svg of [] \<Rightarrow> wh | c # cs \<Rightarrow> c)"
proof (cases "attr_viewBox svg")
  case None
  then show ?thesis by (simp add: from_viewBox_def viewBox_candidate_def)
next
  case (Some vb)
  assume m: "\<not> both_present wh"
  show ?thesis
  proof (cases "vb = []")
    case True
    then show ?thesis using Some by (simp add: from_viewBox_def viewBox_candidate_def falsy_def)
  next
    case False
    then have "\<not> falsy (attr_viewBox svg)" using Some by (simp add: falsy_def)
    moreover have "falsy (fst wh) \<or> falsy (snd wh)" using m by (simp add: both_present_def)
    ultimately show ?thesis
      using Some by (simp add: from_viewBox_def viewBox_candidate_def Let_def)
  qed
qed

lemma from_style_missing:
  "\<not> both_present wh \<Longrightarrow> from_style svg wh = (Some (style_width svg), Some (style_height svg))"
  by (simp add: both_present_def from_style_def)

lemma from_bbox_missing:
  "\<not> both_present wh \<Longrightarrow>
     from_bbox svg wh = (case bbox svg of None \<Rightarrow> wh | Some (bw, bh) \<Rightarrow> (Some bw, Some bh))"
  by (simp add: both_present_def from_bbox_def)

lemma viewBox_candidate_cases:
  "viewBox_candidate svg = [] \<or> (\<exists>c. viewBox_candidate svg = [c])"
  by (simp add: viewBox_candidate_def split: option.splits)

lemma resolved_strings_in_words_eq:
  "resolved_strings svg = resolved_strings_in_words svg"
proof (cases "both_present (attr_width svg, attr_height svg)")
  case True
  then show ?thesis
    by (simp add: resolved_strings_def resolved_strings_in_words_def steps_keep)
next
  case attrs: False
  let ?style = "(Some (style_width svg), Some (style_height svg))"
  consider (none) "viewBox_candidate svg = []"
    | (hit) c where "viewBox_candidate svg = [c]" "both_present c"
    | (miss) c where "viewBox_candidate svg = [c]" "\<not> both_present c"
    using viewBox_candidate_cases[of svg] by blast
  then show ?thesis
  proof cases
    case none
    then have v: "from_viewBox svg (attr_width svg, attr_height svg)
                  = (attr_width svg, attr_height svg)"
      using attrs by (simp add: from_viewBox_missing)
    show ?thesis
    proof (cases "both_present ?style")
      case True
      then show ?thesis
        using attrs none
        by (simp add: resolved_strings_def resolved_strings_in_words_def v
              from_style_missing steps_keep)
    next
      case False
      then show ?thesis
        using attrs none
        by (simp add: resolved_strings_def resolved_strings_in_words_def v
              from_style_missing from_bbox_missing)
    qed
  next
    case hit
    then have v: "from_viewBox svg (attr_width svg, attr_height svg) = c"
      using attrs by (simp add: from_viewBox_missing)
    show ?thesis
      using attrs hit
      by (simp add: resolved_strings_def resolved_strings_in_words_def v steps_keep)
  next
    case miss
    then have v: "from_viewBox svg (attr_width svg, attr_height svg) = c"
      using attrs by (simp add: from_viewBox_missing)
    show ?thesis
    proof (cases "both_present ?style")
      case True
      then show ?thesis
        using attrs miss
        by (simp add: resolved_strings_def resolved_strings_in_words_def v
              from_style_missing steps_keep)
    next
      case False
      then show ?thesis
        using attrs miss
        by (simp add: resolved_strings_def resolved_strings_in_words_def v
              from_style_missing from_bbox_missing)
    qed
  qed
qed

lemma parse_examples:
  "parseSize (Some (lit ''10'')) = Some 10"
  "parseSize (Some (lit ''20'')) = Some 20"
  "parseSize (Some (lit ''0'')) = Some 0"
  "parseSize (Some (lit ''0px'')) = Some 0"
  by (simp_all add: parseSize_def parseFloat_digits_dots_def digits_value_def is_digit_def
        lit_def Let_def)

lemma split_viewBox_example:
  "split_on 32 (lit ''0 0 10 20'') = [lit ''0'', lit ''0'', lit ''10'', lit ''20'']"
  by (simp add: lit_def)

text \<open>
  Claim C1, as the code has it. For every scanned SVG element the width and height
  strings are those of the first of these sources in which both strings are present and
  not empty: the \<open>width\<close> and \<open>height\<close> attributes; the third and fourth components of
  a \<open>viewBox\<close> attribute with exactly four components; the computed style. When there is
  none, they are those of the bounding box if it can be obtained, and of the computed
  style otherwise. Each axis is then the number parsed from its string when that is a
  number other than zero, else the element's client width or height when that is not
  zero, else 100. The resolved width and height are strictly positive.
\<close>

theorem getSVGDimensions_fallback_chain:
  "resolved_strings svg = resolved_strings_in_words svg
   \<and> dims_width (getSVGDimensions svg)
       = resolve_axis (parseSize (fst (resolved_strings_in_words svg))) (clientWidth svg)
   \<and> dims_height (getSVGDimensions svg)
       = resolve_axis (parseSize (snd (resolved_strings_in_words svg))) (clientHeight svg)
   \<and> (\<forall>v c. resolve_axis v c =
          (if v \<noteq> None \<and> v \<noteq> Some 0 then the v else if c \<noteq> 0 then of_nat c else 100))
   \<and> 0 < dims_width (getSVGDimensions svg) \<and> 0 < dims_height (getSVGDimensions svg)"
proof -
  have a: "resolve_axis v c =
          (if v \<noteq> None \<and> v \<noteq> Some 0 then the v else if c \<noteq> 0 then of_nat c else 100)"
    for v c
    by (cases v) (simp_all add: resolve_axis_def)
  show ?thesis
    using a getSVGDimensions_positive[of svg] resolved_strings_in_words_eq[of svg]
    by (simp add: getSVGDimensions_def)
qed

text \<open>
  The element \<open><svg viewBox="0 0 10 20">\<close> without width and height attributes resolves
  to 10 by 20.
\<close>

theorem getSVGDimensions_fallback_chain_witness:
  "resolved_strings svg_viewBox_only = (Some (lit ''10''), Some (lit ''20''))
   \<and> getSVGDimensions svg_viewBox_only = \<lparr> dims_width = 10, dims_height = 20 \<rparr>"
proof -
  have c: "viewBox_candidate svg_viewBox_only = [(Some (lit ''10''), Some (lit ''20''))]"
    by (simp add: viewBox_candidate_def svg_viewBox_only_def split_viewBox_example)
  have n: "lit ''10'' \<noteq> []" "lit ''20'' \<noteq> []" by (simp_all add: lit_def)
  have w: "resolved_strings_in_words svg_viewBox_only = (Some (lit ''10''), Some (lit ''20''))"
    unfolding resolved_strings_in_words_def c
    by (simp add: svg_viewBox_only_def both_present_def falsy_def n)
  have r: "resolve_axis (Some 10) 300 = 10" "resolve_axis (Some 20) 150 = 20"
    by (simp_all add: resolve_axis_def)
  have k: "clientWidth svg_viewBox_only = 300" "clientHeight svg_viewBox_only = 150"
    by (simp_all add: svg_viewBox_only_def)
  have "dims_width (getSVGDimensions svg_viewBox_only) = 10
        \<and> dims_height (getSVGDimensions svg_viewBox_only) = 20
        \<and> resolved_strings svg_viewBox_only = (Some (lit ''10''), Some (lit ''20''))"
    using getSVGDimensions_fallback_chain[of svg_viewBox_only]
    by (simp add: w parse_examples r k)
  then show ?thesis
    by (cases "getSVGDimensions svg_viewBox_only") simp
qed

text \<open>
  Claim C1 as stated fails on two elements. For the first, no attribute, no view box, a
  computed style of \<open>0px\<close> and an empty bounding box: none of the four sources gives a
  usable value, and the result is the client area, 20 by 20, not 100 by 100. For the
  second, \<open>width="0"\<close> and \<open>height="0"\<close> with a view box of 10 by 20: the attribute
  strings are present, so the view box is never read, and the result is 100 by 100.
\<close>

theorem getSVGDimensions_default_counterexample:
  "resolved_strings svg_zero_padded = (Some (lit ''0px''), Some (lit ''0px''))
   \<and> getSVGDimensions svg_zero_padded = \<lparr> dims_width = 20, dims_height = 20 \<rparr>
   \<and> getSVGDimensions svg_zero_padded \<noteq> \<lparr> dims_width = 100, dims_height = 100 \<rparr>
   \<and> resolved_strings svg_sprite = (Some (lit ''0''), Some (lit ''0''))
   \<and> getSVGDimensions svg_sprite = \<lparr> dims_width = 100, dims_height = 100 \<rparr>
   \<and> getSVGDimensions svg_sprite \<noteq> \<lparr> dims_width = 10, dims_height = 20 \<rparr>"
proof -
  have n: "lit ''0px'' \<noteq> []" "lit ''0'' \<noteq> []" by (simp_all add: lit_def)
  have a: "resolved_strings svg_zero_padded = (Some (lit ''0px''), Some (lit ''0px''))"
    by (simp add: resolved_strings_def from_viewBox_def from_style_def from_bbox_def
          svg_zero_padded_def falsy_def n)
  have b: "resolved_strings svg_sprite = (Some (lit ''0''), Some (lit ''0''))"
    by (simp add: resolved_strings_def from_viewBox_def from_style_def from_bbox_def
          svg_sprite_def falsy_def n)
  have c: "clientWidth svg_zero_padded = 20" "clientHeight svg_zero_padded = 20"
    "clientWidth svg_sprite = 0" "clientHeight svg_sprite = 0"
    by (simp_all add: svg_zero_padded_def svg_sprite_def)
  show ?thesis
    by (simp add: getSVGDimensions_def a b c parse_examples resolve_axis_def)
qed

section \<open>Properties of the scan\<close>

lemma set_scanRegularDOM:
  "set (scanRegularDOM scope) = {e \<in> set (descendants scope). is_svg e}"
  by (auto simp: scanRegularDOM_def querySelectorAll_def is_svg_def)

lemma querySelectorAll_Universal: "querySelectorAll Universal scope = descendants scope"
  by (simp add: querySelectorAll_def)

lemma in_shadow_has_root: "in_shadow h e \<Longrightarrow> shadowRoot h \<noteq> None"
  by (induction rule: in_shadow.induct) auto

lemma scanShadowDOM_sound: "e \<in> set (scanShadowDOM h) \<Longrightarrow> is_svg e \<and> in_shadow h e"
proof (induction h arbitrary: e rule: scanShadowDOM.induct)
  case (1 h)
  from "1.prems" obtain sr where sr: "shadowRoot h = Some sr"
    by (cases "shadowRoot h") (auto simp: scanShadowDOM.simps[of h])
  from "1.prems" sr consider
      (own) "e \<in> set (scanRegularDOM sr)"
    | (deep) el where "el \<in> set (descendants sr)" "instanceof_Element el" "shadowRoot el \<noteq> None"
        "e \<in> set (scanShadowDOM el)"
    by (auto simp: scanShadowDOM.simps[of h] querySelectorAll_Universal)
  then show ?case
  proof cases
    case own
    then show ?thesis using sr by (auto simp: set_scanRegularDOM intro: in_shadow.own)
  next
    case deep
    then have "is_svg e \<and> in_shadow el e"
      using "1.IH"[OF sr, of el e] by (simp add: querySelectorAll_Universal)
    then show ?thesis using sr deep(1,2) by (auto intro: in_shadow.nested)
  qed
qed

lemma scanShadowDOM_complete: "in_shadow h e \<Longrightarrow> is_svg e \<Longrightarrow> e \<in> set (scanShadowDOM h)"
proof (induction rule: in_shadow.induct)
  case (own h sr e)
  then show ?case
    by (simp add: scanShadowDOM.simps[of h] set_scanRegularDOM)
next
  case (nested h sr h' e)
  then have "e \<in> set (scanShadowDOM h')" "shadowRoot h' \<noteq> None"
    by (auto dest: in_shadow_has_root)
  then show ?case
    using nested(1,2,3)
    by (auto simp: scanShadowDOM.simps[of h] querySelectorAll_Universal)
qed

lemma set_scanShadowDOM: "set (scanShadowDOM h) = {e. is_svg e \<and> in_shadow h e}"
  using scanShadowDOM_sound scanShadowDOM_complete by blast

lemma set_scan_scope:
  "set (scanRegularDOM scope
        @ concat (map scanShadowDOM (filter host (querySelectorAll Universal scope))))
     = {e. is_svg e \<and> in_tree_or_shadow host scope e}"
  by (auto simp: set_scanRegularDOM set_scanShadowDOM querySelectorAll_Universal
        in_tree_or_shadow_def)

lemma sum_list_concat_map:
  fixes g :: "'a \<Rightarrow> 'b::comm_monoid_add"
  shows "sum_list (map g (concat xss)) = sum_list (map (\<lambda>xs. sum_list (map g xs)) xss)"
  by (induction xss) auto

lemma mset_all_nodes:
  "mset (all_nodes x) =
     mset (subtree x)
     + sum_list (map (\<lambda>y. mset (shadow_nodes y) + mset (frame_nodes y)) (subtree x))"
proof (induction x rule: all_nodes.induct)
  case (1 u n s i cs sh fr)
  let ?g = "\<lambda>y. mset (shadow_nodes y) + mset (frame_nodes y)"
  have kids: "sum_list (map (\<lambda>c. mset (all_nodes c)) cs) =
      sum_list (map (\<lambda>c. mset (subtree c)) cs)
      + sum_list (map (\<lambda>c. sum_list (map ?g (subtree c))) cs)"
    using "1.IH" by (induction cs) (auto simp: ac_simps)
  have here:
    "shadow_nodes (Element u n s i cs sh fr)
       = (case sh of None \<Rightarrow> [] | Some sr \<Rightarrow> concat (map all_nodes sr))"
    "frame_nodes (Element u n s i cs sh fr)
       = (case fr of None \<Rightarrow> [] | Some d \<Rightarrow> concat (map all_nodes d))"
    by (simp_all add: shadow_nodes_def frame_nodes_def page_nodes_def split: option.splits)
  show ?case
    by (simp add: mset_concat sum_list_concat_map kids here comp_def ac_simps)
qed

lemma mset_page_nodes:
  "mset (page_nodes scope) =
     mset (descendants scope)
     + sum_list (map (\<lambda>y. mset (shadow_nodes y)) (descendants scope))
     + sum_list (map (\<lambda>y. mset (frame_nodes y)) (descendants scope))"
proof -
  have "mset (page_nodes scope) =
     mset (descendants scope)
     + sum_list (map (\<lambda>y. mset (shadow_nodes y) + mset (frame_nodes y)) (descendants scope))"
    unfolding page_nodes_def descendants_def
    by (induction scope) (auto simp: mset_all_nodes ac_simps)
  then show ?thesis by (simp add: sum_list_addf ac_simps)
qed

lemma sum_list_filter_mono:
  fixes f g :: "'a \<Rightarrow> 'b multiset"
  assumes "\<And>x. x \<in> set xs \<Longrightarrow> P x \<Longrightarrow> f x \<subseteq># g x"
  shows "sum_list (map f (filter P xs)) \<subseteq># sum_list (map g xs)"
  using assms
proof (induction xs)
  case Nil
  then show ?case by simp
next
  case (Cons a xs)
  then have ih: "sum_list (map f (filter P xs)) \<subseteq># sum_list (map g xs)" by simp
  show ?case
  proof (cases "P a")
    case True
    then have "f a \<subseteq># g a" using Cons.prems by simp
    then show ?thesis using True ih by (simp add: subset_mset.add_mono)
  next
    case False
    then show ?thesis using ih by (simp add: subset_mset.add_increasing)
  qed
qed

lemma mset_scanRegularDOM: "mset (scanRegularDOM scope) \<subseteq># mset (descendants scope)"
  by (simp add: scanRegularDOM_def querySelectorAll_def)

lemma mset_scanShadowDOM: "mset (scanShadowDOM h) \<subseteq># mset (shadow_nodes h)"
proof (induction h rule: scanShadowDOM.induct)
  case (1 h)
  show ?case
  proof (cases "shadowRoot h")
    case None
    then show ?thesis by (simp add: scanShadowDOM.simps[of h])
  next
    case (Some sr)
    have deep: "sum_list (map (\<lambda>el. mset (scanShadowDOM el))
                   (filter (\<lambda>el. instanceof_Element el \<and> shadowRoot el \<noteq> None) (descendants sr)))
                \<subseteq># sum_list (map (\<lambda>y. mset (shadow_nodes y)) (descendants sr))"
      by (rule sum_list_filter_mono)
         (use "1.IH"[OF Some] in \<open>simp add: querySelectorAll_Universal\<close>)
    have "mset (scanShadowDOM h) =
        mset (scanRegularDOM sr)
        + sum_list (map (\<lambda>el. mset (scanShadowDOM el))
                   (filter (\<lambda>el. instanceof_Element el \<and> shadowRoot el \<noteq> None) (descendants sr)))"
      by (simp add: scanShadowDOM.simps[of h] Some querySelectorAll_Universal mset_concat
            comp_def)
    also have "\<dots> \<subseteq># mset (descendants sr)
        + sum_list (map (\<lambda>y. mset (shadow_nodes y)) (descendants sr))"
      by (intro subset_mset.add_mono mset_scanRegularDOM deep)
    also have "\<dots> \<subseteq># mset (page_nodes sr)"
      by (simp add: mset_page_nodes)
    finally show ?thesis by (simp add: shadow_nodes_def Some)
  qed
qed

lemma mset_scan_scope:
  "mset (scanRegularDOM scope
         @ concat (map scanShadowDOM (filter host (querySelectorAll Universal scope))))
     \<subseteq># mset (descendants scope)
         + sum_list (map (\<lambda>y. mset (shadow_nodes y)) (descendants scope))"
proof -
  have "sum_list (map (\<lambda>el. mset (scanShadowDOM el)) (filter host (descendants scope)))
        \<subseteq># sum_list (map (\<lambda>y. mset (shadow_nodes y)) (descendants scope))"
    by (rule sum_list_filter_mono) (rule mset_scanShadowDOM)
  then show ?thesis
    by (simp add: querySelectorAll_Universal mset_concat comp_def
          subset_mset.add_mono mset_scanRegularDOM)
qed

lemma mset_scan_frame:
  "mset (case contentDocument f of
          None \<Rightarrow> []
        | Some iframeDoc \<Rightarrow>
            scanRegularDOM iframeDoc
            @ concat (map scanShadowDOM
                        (filter instanceof_Element (querySelectorAll Universal iframeDoc))))
     \<subseteq># mset (frame_nodes f)"
proof (cases "contentDocument f")
  case None
  then show ?thesis by simp
next
  case (Some d)
  have "mset (scanRegularDOM d
              @ concat (map scanShadowDOM (filter instanceof_Element (querySelectorAll Universal d))))
        \<subseteq># mset (page_nodes d)"
    using mset_scan_scope[of d instanceof_Element]
    by (simp add: mset_page_nodes subset_mset.add_increasing2)
  then show ?thesis by (simp add: Some frame_nodes_def)
qed

lemma mset_scanIframes:
  "mset (scanIframes document)
     \<subseteq># sum_list (map (\<lambda>y. mset (frame_nodes y)) (descendants document))"
proof -
  let ?F = "\<lambda>iframe. case contentDocument iframe of
                      None \<Rightarrow> []
                    | Some iframeDoc \<Rightarrow>
                        scanRegularDOM iframeDoc
                        @ concat (map scanShadowDOM
                                    (filter instanceof_Element (querySelectorAll Universal iframeDoc)))"
  have "mset (scanIframes document) =
      sum_list (map (\<lambda>f. mset (?F f))
        (filter (matches (TypeSelector (lit ''iframe''))) (descendants document)))"
    by (simp add: scanIframes_def querySelectorAll_def[of "TypeSelector (lit ''iframe'')"]
          mset_concat comp_def)
  also have "\<dots> \<subseteq># sum_list (map (\<lambda>y. mset (frame_nodes y)) (descendants document))"
    by (rule sum_list_filter_mono) (rule mset_scan_frame)
  finally show ?thesis .
qed

lemma mset_traverse: "mset (traverse document) \<subseteq># mset (page_nodes document)"
proof -
  have "mset (traverse document) =
      mset (scanRegularDOM document
            @ concat (map scanShadowDOM (querySelectorAll Universal document)))
      + mset (scanIframes document)"
    by (simp add: traverse_def)
  also have "\<dots> \<subseteq># (mset (descendants document)
         + sum_list (map (\<lambda>y. mset (shadow_nodes y)) (descendants document)))
      + sum_list (map (\<lambda>y. mset (frame_nodes y)) (descendants document))"
    using mset_scan_scope[of document "\<lambda>h. True"] mset_scanIframes[of document]
    by (simp add: subset_mset.add_mono)
  finally show ?thesis by (simp add: mset_page_nodes)
qed

lemma distinct_mset_subseteq:
  assumes "mset xs \<subseteq># mset ys" and "distinct ys"
  shows "distinct xs"
proof -
  obtain C where "mset ys = mset xs + C"
    using assms(1) by (auto simp: mset_subset_eq_exists_conv)
  moreover obtain zs where "C = mset zs"
    using ex_mset by metis
  ultimately have "mset ys = mset (xs @ zs)" by simp
  then have "distinct (xs @ zs)"
    using assms(2) mset_eq_imp_distinct_iff by blast
  then show ?thesis by simp
qed

lemma distinct_uid_traverse:
  assumes "distinct (map uid (page_nodes document))"
  shows "distinct (map uid (traverse document))"
proof -
  have "mset (map uid (traverse document)) \<subseteq># mset (map uid (page_nodes document))"
    using mset_traverse[of document] by (simp add: image_mset_subseteq_mono)
  then show ?thesis
    using assms by (rule distinct_mset_subseteq)
qed

lemma traverse_deep_page:
  "traverse deep_page = [svg_node 2, svg_node 9, svg_node 6]"
  by (simp add: traverse_def scanIframes_def scanRegularDOM_def querySelectorAll_def
        descendants_def scanShadowDOM.simps deep_page_def svg_node_def shadow_host_def
        iframe_node_def framed_svg_def instanceof_SVGElement_def instanceof_Element_def
        lit_def)

lemma traverse_framed_page: "traverse framed_page = []"
  by (simp add: traverse_def scanIframes_def scanRegularDOM_def querySelectorAll_def
        descendants_def scanShadowDOM.simps framed_page_def iframe_node_def framed_svg_def
        instanceof_SVGElement_def instanceof_Element_def lit_def)

lemma page_nodes_deep_page: "map uid (page_nodes deep_page) = [0, 1, 2, 3, 4, 5, 6, 7, 8, 9]"
  by (simp add: page_nodes_def deep_page_def svg_node_def shadow_host_def iframe_node_def
        framed_svg_def)

lemma foreign_frames_deep_page: "foreign_frames deep_page"
  by (simp add: foreign_frames_def querySelectorAll_def descendants_def deep_page_def
        svg_node_def shadow_host_def iframe_node_def framed_svg_def lit_def)

lemma scanIframes_foreign:
  assumes "foreign_frames document"
  shows "scanIframes document = []"
proof -
  have "scanRegularDOM d
        @ concat (map scanShadowDOM
                    (filter instanceof_Element (querySelectorAll Universal d))) = []"
    if "list_all (\<lambda>e. realm e \<noteq> 0) (descendants d)" for d
  proof -
    have "filter instanceof_Element (descendants d) = []"
      and "filter instanceof_SVGElement
             (filter (matches (TypeSelector (lit ''svg''))) (descendants d)) = []"
      using that
      by (auto simp: filter_empty_conv list_all_iff instanceof_Element_def
            instanceof_SVGElement_def)
    then show ?thesis
      by (simp add: scanRegularDOM_def querySelectorAll_def)
  qed
  then show ?thesis
    using assms unfolding scanIframes_def foreign_frames_def list_all_iff
    by (auto split: option.splits)
qed

lemma onMessage_records:
  assumes "onMessage serialize props (lit ''scanSVG'') st now document = (Some records, st')"
    and "scanSVGElements st now document = (els, st'')"
  shows "records = map (\<lambda>(index, svg).
                          \<lparr> item_id = index, outerHTML = serialize svg,
                            dimensions = getSVGDimensions (props svg) \<rparr>)
                        (enumerate 0 els)"
  using assms by (auto simp: onMessage_def)

lemma scan_fresh:
  "cachedElements st = None \<or> CACHE_DURATION \<le> now - lastScanTime st \<Longrightarrow>
   scanSVGElements st now document =
     (traverse document, \<lparr> cachedElements = Some (traverse document), lastScanTime = now \<rparr>)"
  by (auto simp: scanSVGElements_def Let_def split: option.splits)

lemma scan_cached:
  "cachedElements st = Some cached \<Longrightarrow> now - lastScanTime st < CACHE_DURATION \<Longrightarrow>
   scanSVGElements st now document = (cached, st)"
  by (simp add: scanSVGElements_def Let_def)

text \<open>
  Claim C7, evaluated where it fails. On a traversal (no cached list, or a cached list
  at least one second old) of a page whose elements have pairwise distinct identities
  and whose frames are foreign, as the frames of a page are: \<open>scanIframes\<close> adds
  nothing, because the tests \<open>instanceof SVGElement\<close> and \<open>instanceof Element\<close> of lines
  31 and 60 are false for every element of the document of a frame; no element of the
  document of a frame is found, whether that document can be read or not. The elements
  found are exactly those named \<open>svg\<close> that pass the test \<open>instanceof SVGElement\<close> in
  the tree of the document and in the shadows of its elements, at any depth; none is
  found twice; the response has one record for each element found, in the order of the
  scan (those of the tree of the document in document order, then those of the shadows),
  and the identifier of each record is its position.
\<close>

theorem scan_misses_framed_svg:
  assumes ids: "distinct (map uid (page_nodes document))"
    and frames: "foreign_frames document"
    and fresh: "cachedElements st = None \<or> CACHE_DURATION \<le> now - lastScanTime st"
    and msg: "onMessage serialize props (lit ''scanSVG'') st now document = (Some records, st')"
  shows "scanIframes document = []
       \<and> (\<forall>f \<in> set (descendants document). \<forall>d.
             localName f = lit ''iframe'' \<and> contentDocument f = Some d \<longrightarrow>
               (\<forall>e \<in> set (descendants d). e \<notin> set (traverse document)))
       \<and> set (traverse document)
           = {e. is_svg e \<and> in_tree_or_shadow (\<lambda>h. True) document e}
       \<and> distinct (map uid (traverse document))
       \<and> length records = length (traverse document)
       \<and> map item_id records = [0..<length (traverse document)]
       \<and> (\<forall>i < length records.
             records ! i = \<lparr> item_id = i, outerHTML = serialize (traverse document ! i),
                             dimensions = getSVGDimensions (props (traverse document ! i)) \<rparr>)
       \<and> traverse document =
           filter is_svg (descendants document)
           @ concat (map scanShadowDOM (descendants document))"
proof -
  have r: "records = map (\<lambda>(index, svg).
                          \<lparr> item_id = index, outerHTML = serialize svg,
                            dimensions = getSVGDimensions (props svg) \<rparr>)
                        (enumerate 0 (traverse document))"
    using onMessage_records[OF msg scan_fresh[OF fresh]] .
  have len: "length records = length (traverse document)"
    by (simp add: r)
  have nth: "records ! i = \<lparr> item_id = i, outerHTML = serialize (traverse document ! i),
                             dimensions = getSVGDimensions (props (traverse document ! i)) \<rparr>"
    if "i < length records" for i
    using that by (simp add: r nth_enumerate_eq)
  have "map item_id records = map fst (enumerate 0 (traverse document))"
    by (simp add: r case_prod_unfold comp_def)
  then have idx: "map item_id records = [0..<length (traverse document)]"
    by (simp add: map_fst_enumerate)
  have none: "scanIframes document = []"
    using frames by (rule scanIframes_foreign)
  have ord: "traverse document =
           filter is_svg (descendants document)
           @ concat (map scanShadowDOM (descendants document))"
  proof -
    have "filter instanceof_SVGElement (filter (matches (TypeSelector (lit ''svg''))) xs)
          = filter is_svg xs" for xs
      by (induction xs) (auto simp: is_svg_def)
    then show ?thesis
      by (simp add: traverse_def scanRegularDOM_def querySelectorAll_def none)
  qed
  have found: "set (traverse document)
           = {e. is_svg e \<and> in_tree_or_shadow (\<lambda>h. True) document e}"
    using set_scan_scope[of document "\<lambda>h. True"] by (simp add: traverse_def none)
  have missed: "e \<notin> set (traverse document)"
    if f: "f \<in> set (descendants document)" "localName f = lit ''iframe''"
      "contentDocument f = Some d" and e: "e \<in> set (descendants d)" for f d e
  proof -
    have "f \<in> set (querySelectorAll (TypeSelector (lit ''iframe'')) document)"
      using f by (simp add: querySelectorAll_def)
    then have "realm e \<noteq> 0"
      using frames f(3) e unfolding foreign_frames_def list_all_iff by fastforce
    then have "\<not> is_svg e"
      by (simp add: is_svg_def instanceof_SVGElement_def)
    then show ?thesis by (simp add: found)
  qed
  show ?thesis
    using none missed found distinct_uid_traverse[OF ids] len idx nth ord
    by blast
qed

text \<open>
  Claim C8. After a call that traversed at time \<open>t0\<close>, a call at time \<open>t1\<close> less than
  1000 milliseconds later returns the list of that traversal and leaves the cache as it
  is, whatever the page has become; a call 1000 milliseconds later or more traverses the
  page as it is then and replaces the cached list and its timestamp.
\<close>

theorem scanSVGElements_cache_window:
  assumes "cachedElements st = None \<or> CACHE_DURATION \<le> t0 - lastScanTime st"
    and "scanSVGElements st t0 doc0 = (r0, s1)"
  shows "r0 = traverse doc0
       \<and> s1 = \<lparr> cachedElements = Some (traverse doc0), lastScanTime = t0 \<rparr>
       \<and> (t1 - t0 < 1000 \<longrightarrow> scanSVGElements s1 t1 doc1 = (r0, s1))
       \<and> (1000 \<le> t1 - t0 \<longrightarrow>
            scanSVGElements s1 t1 doc1 =
              (traverse doc1, \<lparr> cachedElements = Some (traverse doc1), lastScanTime = t1 \<rparr>))"
proof -
  have a: "r0 = traverse doc0"
    and b: "s1 = \<lparr> cachedElements = Some (traverse doc0), lastScanTime = t0 \<rparr>"
    using assms(2) scan_fresh[OF assms(1), of doc0] by auto
  have c: "scanSVGElements s1 t1 doc1 = (r0, s1)" if "t1 - t0 < 1000"
    using that scan_cached[of s1 r0 t1 doc1] by (simp add: a b CACHE_DURATION_def)
  have d: "scanSVGElements s1 t1 doc1 =
              (traverse doc1, \<lparr> cachedElements = Some (traverse doc1), lastScanTime = t1 \<rparr>)"
    if "1000 \<le> t1 - t0"
    using that scan_fresh[of s1 t1 doc1] by (simp add: b CACHE_DURATION_def)
  show ?thesis using a b c d by blast
qed

lemma dims_viewBox_only:
  "getSVGDimensions svg_viewBox_only = \<lparr> dims_width = 10, dims_height = 20 \<rparr>"
proof -
  have n: "lit ''10'' \<noteq> []" "lit ''20'' \<noteq> []" "lit ''0 0 10 20'' \<noteq> []"
    by (simp_all add: lit_def)
  have s: "split_on 32 (lit ''0 0 10 20'') = [lit ''0'', lit ''0'', lit ''10'', lit ''20'']"
    by (simp add: lit_def)
  have p: "parseSize (Some (lit ''10'')) = Some 10" "parseSize (Some (lit ''20'')) = Some 20"
    by (simp_all add: parseSize_def parseFloat_digits_dots_def digits_value_def is_digit_def
        lit_def Let_def)
  have r: "resolved_strings svg_viewBox_only = (Some (lit ''10''), Some (lit ''20''))"
    by (simp add: resolved_strings_def from_viewBox_def from_style_def from_bbox_def
          svg_viewBox_only_def falsy_def s n)
  show ?thesis
    unfolding getSVGDimensions_def r
    by (simp add: p resolve_axis_def)
qed

lemma onMessage_deep_page:
  "onMessage (\<lambda>e. lit ''<svg/>'') (\<lambda>e. svg_viewBox_only) (lit ''scanSVG'') initial_scanner 5000
      deep_page =
     (Some [demo_record 0, demo_record 1, demo_record 2],
      \<lparr> cachedElements = Some [svg_node 2, svg_node 9, svg_node 6],
        lastScanTime = 5000 \<rparr>)"
  by (simp add: onMessage_def scanSVGElements_def initial_scanner_def traverse_deep_page
        dims_viewBox_only demo_record_def enumerate_eq_zip upt_rec)

text \<open>
  The first page: the \<open>iframe\<close> 7 is in the tree of the document and its content
  document, which can be read, holds the SVG element 8; the response has three records,
  numbered 0 to 2, for the elements 2, 9 and 6 (the one three shadow roots deep), and
  none for the element 8.
\<close>

theorem scan_misses_framed_svg_witness:
  "iframe_node 7 [framed_svg 8] \<in> set (descendants deep_page)
   \<and> contentDocument (iframe_node 7 [framed_svg 8]) = Some [framed_svg 8]
   \<and> svgInterface (framed_svg 8) \<and> localName (framed_svg 8) = lit ''svg''
   \<and> fst (onMessage (\<lambda>e. lit ''<svg/>'') (\<lambda>e. svg_viewBox_only) (lit ''scanSVG'')
            initial_scanner 5000 deep_page)
       = Some [demo_record 0, demo_record 1, demo_record 2]
   \<and> traverse deep_page = [svg_node 2, svg_node 9, svg_node 6]
   \<and> framed_svg 8 \<notin> set (traverse deep_page)
   \<and> scanIframes deep_page = []"
proof -
  have d: "distinct (map uid (page_nodes deep_page))"
    by (simp add: page_nodes_deep_page)
  have f: "cachedElements initial_scanner = None
           \<or> CACHE_DURATION \<le> 5000 - lastScanTime initial_scanner"
    by (simp add: initial_scanner_def)
  have i: "iframe_node 7 [framed_svg 8] \<in> set (descendants deep_page)"
    by (simp add: descendants_def deep_page_def svg_node_def shadow_host_def iframe_node_def
          framed_svg_def)
  have c: "contentDocument (iframe_node 7 [framed_svg 8]) = Some [framed_svg 8]"
    "localName (iframe_node 7 [framed_svg 8]) = lit ''iframe''"
    by (simp_all add: iframe_node_def)
  have e: "framed_svg 8 \<in> set (descendants [framed_svg 8])"
    "svgInterface (framed_svg 8)" "localName (framed_svg 8) = lit ''svg''"
    by (simp_all add: descendants_def framed_svg_def)
  have "scanIframes deep_page = [] \<and> framed_svg 8 \<notin> set (traverse deep_page)"
    using scan_misses_framed_svg[OF d foreign_frames_deep_page f onMessage_deep_page] i c e(1)
    by blast
  then show ?thesis
    using i c e by (simp add: onMessage_deep_page traverse_deep_page)
qed

text \<open>
  A traversal of the first page at 5000; at 5999 the page has become the second page
  and the call still returns the three elements; at 6000 the call traverses the second
  page and finds nothing.
\<close>

theorem scanSVGElements_cache_window_witness:
  "scanSVGElements initial_scanner 5000 deep_page =
     ([svg_node 2, svg_node 9, svg_node 6],
      \<lparr> cachedElements = Some [svg_node 2, svg_node 9, svg_node 6],
        lastScanTime = 5000 \<rparr>)
   \<and> scanSVGElements
        \<lparr> cachedElements = Some [svg_node 2, svg_node 9, svg_node 6],
          lastScanTime = 5000 \<rparr> 5999 framed_page =
     ([svg_node 2, svg_node 9, svg_node 6],
      \<lparr> cachedElements = Some [svg_node 2, svg_node 9, svg_node 6],
        lastScanTime = 5000 \<rparr>)
   \<and> scanSVGElements
        \<lparr> cachedElements = Some [svg_node 2, svg_node 9, svg_node 6],
          lastScanTime = 5000 \<rparr> 6000 framed_page =
     ([], \<lparr> cachedElements = Some [], lastScanTime = 6000 \<rparr>)"
proof -
  have f: "cachedElements initial_scanner = None
           \<or> CACHE_DURATION \<le> 5000 - lastScanTime initial_scanner"
    by (simp add: initial_scanner_def)
  have s: "scanSVGElements initial_scanner 5000 deep_page =
     ([svg_node 2, svg_node 9, svg_node 6],
      \<lparr> cachedElements = Some [svg_node 2, svg_node 9, svg_node 6],
        lastScanTime = 5000 \<rparr>)"
    by (simp add: scanSVGElements_def initial_scanner_def traverse_deep_page)
  show ?thesis
    using scanSVGElements_cache_window[OF f s, of 5999 framed_page]
          scanSVGElements_cache_window[OF f s, of 6000 framed_page]
    unfolding traverse_deep_page traverse_framed_page
    by (simp add: s)
qed

section \<open>Properties of the markup normalisation\<close>

lemma not_space_60: "\<not> is_space 60"
  by (simp add: is_space_def)

lemma not_space_62: "\<not> is_space 62"
  by (simp add: is_space_def)

lemma single_spaced_Cons:
  "single_spaced (c # cs) \<longleftrightarrow>
     (is_space c \<longrightarrow> c = 32 \<and> (cs = [] \<or> \<not> is_space (hd cs))) \<and> single_spaced cs"
  by (cases cs) auto

lemma single_spaced_append:
  "single_spaced (xs @ ys) \<longleftrightarrow>
     single_spaced xs \<and> single_spaced ys
     \<and> (xs \<noteq> [] \<and> ys \<noteq> [] \<longrightarrow> \<not> (is_space (last xs) \<and> is_space (hd ys)))"
proof (induction xs)
  case Nil
  then show ?case by simp
next
  case (Cons a xs)
  show ?case
  proof (cases xs)
    case Nil
    then show ?thesis
      by (cases ys) (auto simp: single_spaced_Cons)
  next
    case (Cons b xs')
    then show ?thesis
      using Cons.IH by (auto simp: single_spaced_Cons)
  qed
qed

lemma single_spaced_drop: "single_spaced xs \<Longrightarrow> single_spaced (drop n xs)"
  by (metis append_take_drop_id single_spaced_append)

lemma single_spaced_spaces: "single_spaced xs \<Longrightarrow> c \<in> set xs \<Longrightarrow> is_space c \<Longrightarrow> c = 32"
  by (induction xs) (auto simp: single_spaced_Cons)

lemma collapse_hd:
  "cs \<noteq> [] \<Longrightarrow> \<not> is_space (hd cs) \<Longrightarrow>
     collapse_spaces cs \<noteq> [] \<and> hd (collapse_spaces cs) = hd cs"
  by (cases cs) auto

lemma dropWhile_hd_not: "dropWhile P xs \<noteq> [] \<Longrightarrow> \<not> P (hd (dropWhile P xs))"
  by (metis hd_dropWhile)

lemma single_spaced_collapse: "single_spaced (collapse_spaces s)"
proof (induction s rule: collapse_spaces.induct)
  case 1
  then show ?case by simp
next
  case (2 c cs)
  show ?case
  proof (cases "is_space c")
    case True
    let ?r = "dropWhile is_space cs"
    have "collapse_spaces ?r = [] \<or> \<not> is_space (hd (collapse_spaces ?r))"
    proof (cases "?r = []")
      case True
      then show ?thesis by (metis collapse_spaces.simps(1))
    next
      case False
      then have "\<not> is_space (hd ?r)" by (rule dropWhile_hd_not)
      then show ?thesis using collapse_hd[OF False] by simp
    qed
    then show ?thesis
      using True 2 by (auto simp: single_spaced_Cons)
  next
    case False
    then show ?thesis using 2 by (simp add: single_spaced_Cons)
  qed
qed

lemma tag_gap_Cons:
  "tag_gap (c # cs) \<longleftrightarrow> is_space c \<and> (tag_gap cs \<or> (cs \<noteq> [] \<and> hd cs = 60))"
proof (cases "is_space c")
  case False
  then show ?thesis by (simp add: tag_gap_def)
next
  case True
  show ?thesis
  proof (cases cs)
    case Nil
    then show ?thesis using True by (simp add: tag_gap_def)
  next
    case (Cons d ds)
    then show ?thesis
      using True not_space_60 by (auto simp: tag_gap_def split: list.splits)
  qed
qed

lemma tag_gap_Nil: "\<not> tag_gap []"
  by (simp add: tag_gap_def)

lemma strip_Nil_iff: "strip_tag_spaces cs = [] \<longleftrightarrow> cs = []"
  by (cases cs) auto

lemma hd_strip: "cs \<noteq> [] \<Longrightarrow> hd (strip_tag_spaces cs) = hd cs"
  by (cases cs) auto

lemma tag_gap_strip: "tag_gap (strip_tag_spaces cs) \<Longrightarrow> tag_gap cs"
proof (induction cs rule: strip_tag_spaces.induct)
  case 1
  then show ?case by simp
next
  case (2 c cs)
  show ?case
  proof (cases "c = 62 \<and> tag_gap cs")
    case True
    then show ?thesis using "2.prems" not_space_62 by (simp add: tag_gap_Cons)
  next
    case False
    then have "tag_gap (c # strip_tag_spaces cs)" using "2.prems" by auto
    then have "is_space c"
      and "tag_gap (strip_tag_spaces cs)
           \<or> (strip_tag_spaces cs \<noteq> [] \<and> hd (strip_tag_spaces cs) = 60)"
      by (simp_all add: tag_gap_Cons)
    then show ?thesis
      using "2.IH"(2)[OF False] by (auto simp: tag_gap_Cons strip_Nil_iff hd_strip)
  qed
qed

lemma gap_free_strip: "gap_free (strip_tag_spaces s)"
proof (induction s rule: strip_tag_spaces.induct)
  case 1
  then show ?case by simp
next
  case (2 c cs)
  show ?case
  proof (cases "c = 62 \<and> tag_gap cs")
    case True
    then show ?thesis
      using "2.IH"(1) not_space_60 by (simp add: tag_gap_Cons)
  next
    case False
    then show ?thesis
      using "2.IH"(2) tag_gap_strip[of cs] by auto
  qed
qed

lemma single_spaced_tl: "single_spaced xs \<Longrightarrow> single_spaced (tl xs)"
  by (cases xs) (auto simp: single_spaced_Cons)

lemma single_spaced_dropWhile: "single_spaced xs \<Longrightarrow> single_spaced (dropWhile P xs)"
  by (metis dropWhile_eq_drop single_spaced_drop)

lemma single_spaced_strip: "single_spaced s \<Longrightarrow> single_spaced (strip_tag_spaces s)"
proof (induction s rule: strip_tag_spaces.induct)
  case 1
  then show ?case by simp
next
  case (2 c cs)
  have cs: "single_spaced cs" using "2.prems" by (simp add: single_spaced_Cons)
  show ?case
  proof (cases "c = 62 \<and> tag_gap cs")
    case True
    have "single_spaced (tl (dropWhile is_space cs))"
      using cs by (intro single_spaced_tl single_spaced_dropWhile)
    then have "single_spaced (strip_tag_spaces (tl (dropWhile is_space cs)))"
      using "2.IH"(1)[OF True] by simp
    then show ?thesis
      using True not_space_60 not_space_62 by (simp add: single_spaced_Cons)
  next
    case False
    have "single_spaced (strip_tag_spaces cs)"
      using "2.IH"(2)[OF False cs] .
    moreover have "is_space c \<longrightarrow> c = 32 \<and> (strip_tag_spaces cs = []
        \<or> \<not> is_space (hd (strip_tag_spaces cs)))"
      using "2.prems" by (auto simp: single_spaced_Cons strip_Nil_iff hd_strip)
    ultimately show ?thesis
      using False by (auto simp: single_spaced_Cons)
  qed
qed

lemma gap_free_drop: "gap_free xs \<Longrightarrow> gap_free (drop n xs)"
proof (induction xs arbitrary: n)
  case Nil
  then show ?case by simp
next
  case (Cons a xs)
  then show ?case by (cases n) auto
qed

lemma gap_free_append_plain: "62 \<notin> set xs \<Longrightarrow> gap_free (xs @ ys) = gap_free ys"
  by (induction xs) auto

lemma replace_all_Nil_iff: "rep \<noteq> [] \<Longrightarrow> replace_all pat rep s = [] \<longleftrightarrow> s = []"
  by (cases s) auto

lemma replace_all_hd:
  "rep \<noteq> [] \<Longrightarrow> s \<noteq> [] \<Longrightarrow>
     hd (replace_all pat rep s) = hd rep \<or> hd (replace_all pat rep s) = hd s"
  by (cases s) auto

lemma single_spaced_replace_all:
  "rep \<noteq> [] \<Longrightarrow> single_spaced rep \<Longrightarrow> \<not> is_space (hd rep) \<Longrightarrow> \<not> is_space (last rep) \<Longrightarrow>
   single_spaced s \<Longrightarrow> single_spaced (replace_all pat rep s)"
proof (induction pat rep s rule: replace_all.induct)
  case (1 pat rep)
  then show ?case by simp
next
  case (2 pat rep c cs)
  note rep = "2.prems"(1-4)
  show ?case
  proof (cases "pat \<noteq> [] \<and> take (length pat) (c # cs) = pat")
    case True
    have "single_spaced (drop (length pat) (c # cs))"
      using "2.prems"(5) by (rule single_spaced_drop)
    then have "single_spaced (replace_all pat rep (drop (length pat) (c # cs)))"
      using "2.IH"(1)[OF True rep] by simp
    then show ?thesis
      using True rep by (simp add: single_spaced_append)
  next
    case False
    have cs: "single_spaced cs" using "2.prems"(5) by (simp add: single_spaced_Cons)
    have r: "single_spaced (replace_all pat rep cs)"
      using "2.IH"(2)[OF False rep cs] .
    have "is_space c \<longrightarrow> c = 32 \<and> (replace_all pat rep cs = []
        \<or> \<not> is_space (hd (replace_all pat rep cs)))"
      using "2.prems"(5) rep replace_all_hd[of rep cs pat]
      by (auto simp: single_spaced_Cons replace_all_Nil_iff)
    then show ?thesis
      using False r by (auto simp: single_spaced_Cons)
  qed
qed

lemma tag_gap_replace_all:
  "rep \<noteq> [] \<Longrightarrow> \<not> is_space (hd rep) \<Longrightarrow> hd rep \<noteq> 60 \<Longrightarrow>
   tag_gap (replace_all pat rep s) \<Longrightarrow> tag_gap s"
proof (induction pat rep s rule: replace_all.induct)
  case (1 pat rep)
  then show ?case by simp
next
  case (2 pat rep c cs)
  note rep = "2.prems"(1-3)
  show ?case
  proof (cases "pat \<noteq> [] \<and> take (length pat) (c # cs) = pat")
    case True
    then have "hd (replace_all pat rep (c # cs)) = hd rep"
      using rep(1) by simp
    moreover have "is_space (hd (replace_all pat rep (c # cs)))"
      using "2.prems"(4) by (cases "replace_all pat rep (c # cs)") (auto simp: tag_gap_Nil tag_gap_Cons)
    ultimately show ?thesis using rep(2) by simp
  next
    case False
    then have "tag_gap (c # replace_all pat rep cs)" using "2.prems"(4) by auto
    then have c: "is_space c"
      and d: "tag_gap (replace_all pat rep cs)
           \<or> (replace_all pat rep cs \<noteq> [] \<and> hd (replace_all pat rep cs) = 60)"
      by (simp_all add: tag_gap_Cons)
    from d have "tag_gap cs \<or> (cs \<noteq> [] \<and> hd cs = 60)"
      using "2.IH"(2)[OF False rep] rep replace_all_hd[of rep cs pat]
      by (auto simp: replace_all_Nil_iff)
    then show ?thesis using c by (simp add: tag_gap_Cons)
  qed
qed

lemma gap_free_replace_all:
  "rep \<noteq> [] \<Longrightarrow> \<not> is_space (hd rep) \<Longrightarrow> hd rep \<noteq> 60 \<Longrightarrow> 62 \<notin> set rep \<Longrightarrow>
   gap_free s \<Longrightarrow> gap_free (replace_all pat rep s)"
proof (induction pat rep s rule: replace_all.induct)
  case (1 pat rep)
  then show ?case by simp
next
  case (2 pat rep c cs)
  note rep = "2.prems"(1-4)
  show ?case
  proof (cases "pat \<noteq> [] \<and> take (length pat) (c # cs) = pat")
    case True
    have "gap_free (drop (length pat) (c # cs))"
      using "2.prems"(5) by (rule gap_free_drop)
    then have "gap_free (replace_all pat rep (drop (length pat) (c # cs)))"
      using "2.IH"(1)[OF True rep] by simp
    then show ?thesis
      using True rep(4) by (simp add: gap_free_append_plain)
  next
    case False
    have "gap_free (replace_all pat rep cs)"
      using "2.IH"(2)[OF False rep] "2.prems"(5) by simp
    moreover have "\<not> (c = 62 \<and> tag_gap (replace_all pat rep cs))"
      using "2.prems"(5) tag_gap_replace_all[OF rep(1-3), of pat cs] by auto
    ultimately show ?thesis using False by auto
  qed
qed

lemma replace_first_Nil_iff:
  "pat \<noteq> [] \<Longrightarrow> rep \<noteq> [] \<Longrightarrow> replace_first pat rep s = [] \<longleftrightarrow> s = []"
  by (cases s) auto

lemma replace_first_hd:
  "pat \<noteq> [] \<Longrightarrow> rep \<noteq> [] \<Longrightarrow> hd rep = hd pat \<Longrightarrow> s \<noteq> [] \<Longrightarrow>
     hd (replace_first pat rep s) = hd s"
proof (cases s)
  case Nil
  assume "s \<noteq> []"
  then show ?thesis using Nil by simp
next
  case (Cons c cs)
  assume p: "pat \<noteq> []" and r: "rep \<noteq> []" and h: "hd rep = hd pat"
  show ?thesis
  proof (cases "take (length pat) (c # cs) = pat")
    case True
    then have "hd pat = c" using p by (cases pat) auto
    then show ?thesis using True Cons r h by simp
  next
    case False
    then show ?thesis using Cons by simp
  qed
qed

lemma single_spaced_replace_first:
  "pat \<noteq> [] \<Longrightarrow> rep \<noteq> [] \<Longrightarrow> hd rep = hd pat \<Longrightarrow> single_spaced rep \<Longrightarrow>
   \<not> is_space (last rep) \<Longrightarrow> single_spaced s \<Longrightarrow> single_spaced (replace_first pat rep s)"
proof (induction pat rep s rule: replace_first.induct)
  case (1 pat rep)
  then show ?case by simp
next
  case (2 pat rep c cs)
  note rep = "2.prems"(1-5)
  show ?case
  proof (cases "take (length pat) (c # cs) = pat")
    case True
    have "single_spaced (drop (length pat) (c # cs))"
      using "2.prems"(6) by (rule single_spaced_drop)
    then show ?thesis
      using True rep by (simp add: single_spaced_append)
  next
    case False
    have cs: "single_spaced cs" using "2.prems"(6) by (simp add: single_spaced_Cons)
    have r: "single_spaced (replace_first pat rep cs)"
      using "2.IH"[OF False rep cs] .
    have "is_space c \<longrightarrow> c = 32 \<and> (replace_first pat rep cs = []
        \<or> \<not> is_space (hd (replace_first pat rep cs)))"
      using "2.prems"(6) replace_first_hd[OF rep(1-3), of cs]
      by (auto simp: single_spaced_Cons replace_first_Nil_iff[OF rep(1,2)])
    then show ?thesis
      using False r by (auto simp: single_spaced_Cons)
  qed
qed

lemma tag_gap_replace_first:
  "pat \<noteq> [] \<Longrightarrow> rep \<noteq> [] \<Longrightarrow> hd rep = hd pat \<Longrightarrow> \<not> is_space (hd rep) \<Longrightarrow>
   tag_gap (replace_first pat rep s) \<Longrightarrow> tag_gap s"
proof (induction pat rep s rule: replace_first.induct)
  case (1 pat rep)
  then show ?case by (simp add: tag_gap_Nil)
next
  case (2 pat rep c cs)
  note rep = "2.prems"(1-4)
  show ?case
  proof (cases "take (length pat) (c # cs) = pat")
    case True
    then have "hd (replace_first pat rep (c # cs)) = hd rep"
      using rep(2) by simp
    moreover have "is_space (hd (replace_first pat rep (c # cs)))"
      using "2.prems"(5)
      by (cases "replace_first pat rep (c # cs)") (auto simp: tag_gap_Nil tag_gap_Cons)
    ultimately show ?thesis using rep(4) by simp
  next
    case False
    then have "tag_gap (c # replace_first pat rep cs)" using "2.prems"(5) by auto
    then have c: "is_space c"
      and d: "tag_gap (replace_first pat rep cs)
           \<or> (replace_first pat rep cs \<noteq> [] \<and> hd (replace_first pat rep cs) = 60)"
      by (simp_all add: tag_gap_Cons)
    from d have "tag_gap cs \<or> (cs \<noteq> [] \<and> hd cs = 60)"
      using "2.IH"[OF False rep] replace_first_hd[OF rep(1-3), of cs]
      by (auto simp: replace_first_Nil_iff[OF rep(1,2)])
    then show ?thesis using c by (simp add: tag_gap_Cons)
  qed
qed

lemma gap_free_replace_first:
  "pat \<noteq> [] \<Longrightarrow> rep \<noteq> [] \<Longrightarrow> hd rep = hd pat \<Longrightarrow> \<not> is_space (hd rep) \<Longrightarrow>
   62 \<notin> set rep \<Longrightarrow> gap_free s \<Longrightarrow> gap_free (replace_first pat rep s)"
proof (induction pat rep s rule: replace_first.induct)
  case (1 pat rep)
  then show ?case by simp
next
  case (2 pat rep c cs)
  note rep = "2.prems"(1-5)
  show ?case
  proof (cases "take (length pat) (c # cs) = pat")
    case True
    have "gap_free (drop (length pat) (c # cs))"
      using "2.prems"(6) by (rule gap_free_drop)
    then show ?thesis
      using True rep(5) by (simp add: gap_free_append_plain)
  next
    case False
    have "gap_free (replace_first pat rep cs)"
      using "2.IH"[OF False rep] "2.prems"(6) by simp
    moreover have "\<not> (c = 62 \<and> tag_gap (replace_first pat rep cs))"
      using "2.prems"(6) tag_gap_replace_first[OF rep(1-4), of cs] by auto
    ultimately show ?thesis using False by auto
  qed
qed

lemma href_facts:
  "lit ''href'' \<noteq> []" "single_spaced (lit ''href'')" "\<not> is_space (hd (lit ''href''))"
  "\<not> is_space (last (lit ''href''))" "hd (lit ''href'') \<noteq> 60" "62 \<notin> set (lit ''href'')"
  by (simp_all add: lit_def is_space_def)

lemma xmlns_facts:
  "lit ''xmlns'' \<noteq> []" "single_spaced (lit ''xmlns'')" "\<not> is_space (hd (lit ''xmlns''))"
  "\<not> is_space (last (lit ''xmlns''))" "hd (lit ''xmlns'') \<noteq> 60" "62 \<notin> set (lit ''xmlns'')"
  by (simp_all add: lit_def is_space_def)

lemma svg_with_xmlns_facts:
  "lit ''<svg'' \<noteq> []" "svg_with_xmlns \<noteq> []" "hd svg_with_xmlns = hd (lit ''<svg'')"
  "single_spaced svg_with_xmlns" "\<not> is_space (last svg_with_xmlns)"
  "\<not> is_space (hd svg_with_xmlns)" "62 \<notin> set svg_with_xmlns"
  by (simp_all add: svg_with_xmlns_def lit_def is_space_def)

lemma cleanSvgString_single_spaced: "single_spaced (cleanSvgString s)"
  unfolding cleanSvgString_def
  by (intro single_spaced_replace_first single_spaced_replace_all single_spaced_strip
        single_spaced_collapse href_facts xmlns_facts svg_with_xmlns_facts)

lemma cleanSvgString_gap_free: "gap_free (cleanSvgString s)"
  unfolding cleanSvgString_def
  by (intro gap_free_replace_first gap_free_replace_all gap_free_strip
        href_facts xmlns_facts svg_with_xmlns_facts)

lemma unbordered_no_overlap:
  assumes u: "unbordered pat" and k: "0 < k" "k < length pat"
  shows "take k pat \<noteq> drop (length pat - k) pat"
proof -
  have "k \<in> set [1..<length pat]" using k by simp
  then show ?thesis
    using u unfolding unbordered_def list_all_iff by blast
qed

lemma replace_all_occurrence:
  assumes p: "pat \<noteq> []" and u: "unbordered pat"
  shows "replace_all pat rep (a @ pat @ b)
         = replace_all pat rep a @ rep @ replace_all pat rep b"
proof (induction a rule: length_induct)
  case (1 a)
  show ?case
  proof (cases a)
    case Nil
    obtain c cs where pc: "pat = c # cs" using p by (cases pat) auto
    have "replace_all pat rep (pat @ b) = rep @ replace_all pat rep b"
      using p by (simp add: pc)
    then show ?thesis using Nil by simp
  next
    case (Cons c a')
    show ?thesis
    proof (cases "take (length pat) (a @ pat @ b) = pat")
      case True
      have long: "length pat \<le> length a"
      proof (rule ccontr)
        assume "\<not> length pat \<le> length a"
        then have l: "length a < length pat" by simp
        let ?k = "length pat - length a"
        have k: "0 < ?k" "?k < length pat" using l Cons by simp_all
        have "take (length pat) (a @ pat @ b) = a @ take ?k pat"
          using l by simp
        then have "pat = a @ take ?k pat" using True by simp
        then have "drop (length a) pat = take ?k pat"
          by (metis append_eq_conv_conj)
        moreover have "length pat - ?k = length a" using l by simp
        ultimately have "take ?k pat = drop (length pat - ?k) pat" by simp
        then show False using unbordered_no_overlap[OF u k] by simp
      qed
      then have pre: "take (length pat) a = pat" using True by simp
      define a'' where "a'' = drop (length pat) a"
      have a: "a = pat @ a''"
        unfolding a''_def using pre by (metis append_take_drop_id)
      have shorter: "length a'' < length a" using a p by simp
      have ih: "replace_all pat rep (a'' @ pat @ b)
                = replace_all pat rep a'' @ rep @ replace_all pat rep b"
        using 1 shorter by blast
      obtain d ds where pd: "pat = d # ds" using p by (cases pat) auto
      have "replace_all pat rep (a @ pat @ b) = rep @ replace_all pat rep (a'' @ pat @ b)"
        using p unfolding a by (simp add: pd)
      moreover have "replace_all pat rep a = rep @ replace_all pat rep a''"
        using p unfolding a by (simp add: pd)
      ultimately show ?thesis using ih by simp
    next
      case False
      then have nopre: "take (length pat) a \<noteq> pat"
        by (metis append_eq_conv_conj append.assoc append_take_drop_id take_append min.idem
              length_take take_take)
      have shorter: "length a' < length a" using Cons by simp
      have ih: "replace_all pat rep (a' @ pat @ b)
                = replace_all pat rep a' @ rep @ replace_all pat rep b"
        using 1 shorter by blast
      have "replace_all pat rep (a @ pat @ b) = c # replace_all pat rep (a' @ pat @ b)"
        using False Cons by simp
      moreover have "replace_all pat rep a = c # replace_all pat rep a'"
        using nopre Cons by simp
      ultimately show ?thesis using ih by simp
    qed
  qed
qed

lemma unbordered_patterns:
  "unbordered (lit ''xlink:href'')" "unbordered (lit ''xmlns:xlink'')"
  by (simp_all add: unbordered_def lit_def upt_rec)

lemma cleanSvgString_root_tag:
  "cleanSvgString (lit ''<svg'' @ rest) =
     svg_with_xmlns
     @ replace_all (lit ''xmlns:xlink'') (lit ''xmlns'')
         (replace_all (lit ''xlink:href'') (lit ''href'')
           (strip_tag_spaces (collapse_spaces (replace_newlines rest))))"
  by (simp add: cleanSvgString_def replace_newlines_def lit_def is_space_def)

lemma cleanSvgString_no_newline: "10 \<notin> set (cleanSvgString s)"
proof
  assume "10 \<in> set (cleanSvgString s)"
  moreover have "is_space 10" by (simp add: is_space_def)
  ultimately have "(10::nat) = 32"
    using cleanSvgString_single_spaced[of s] single_spaced_spaces by blast
  then show False by simp
qed

lemma no_straddle:
  assumes u: "unbordered pat" and a: "a \<noteq> []"
    and t: "take (length pat) (a @ pat @ b) = pat"
  shows "length pat \<le> length a"
proof (rule ccontr)
  assume "\<not> length pat \<le> length a"
  then have l: "length a < length pat" by simp
  let ?k = "length pat - length a"
  obtain c a' where "a = c # a'" using a by (cases a) auto
  then have k: "0 < ?k" "?k < length pat" using l by simp_all
  have "take (length pat) (a @ pat @ b) = a @ take ?k pat"
    using l by simp
  then have "pat = a @ take ?k pat" using t by simp
  then have "drop (length a) pat = take ?k pat"
    by (metis append_eq_conv_conj)
  moreover have "length pat - ?k = length a" using l by simp
  ultimately have "take ?k pat = drop (length pat - ?k) pat" by simp
  then show False using unbordered_no_overlap[OF u k] by simp
qed

lemma replace_first_absent:
  "pat \<noteq> [] \<Longrightarrow> \<not> occurs pat t \<Longrightarrow> replace_first pat rep t = t"
  by (induction t) auto

lemma replace_first_at:
  assumes p: "pat \<noteq> []" and u: "unbordered pat"
  shows "\<not> occurs pat a \<Longrightarrow> replace_first pat rep (a @ pat @ b) = a @ rep @ b"
proof (induction a)
  case Nil
  obtain c cs where pc: "pat = c # cs" using p by (cases pat) auto
  show ?case by (simp add: pc)
next
  case (Cons c a)
  have n: "take (length pat) (c # a) \<noteq> pat" and o: "\<not> occurs pat a"
    using Cons.prems by auto
  have "take (length pat) ((c # a) @ pat @ b) \<noteq> pat"
  proof
    assume t: "take (length pat) ((c # a) @ pat @ b) = pat"
    then have "length pat \<le> length (c # a)"
      using no_straddle[OF u _ t] by simp
    then have "take (length pat) ((c # a) @ pat @ b) = take (length pat) (c # a)"
      by (simp only: take_append) simp
    then show False using t n by simp
  qed
  then show ?case using Cons.IH[OF o] by simp
qed

lemma replace_all_plain:
  "set w \<inter> set pat = {} \<Longrightarrow> 
   replace_all pat rep (w @ v) = w @ replace_all pat rep v"
proof (induction w)
  case Nil
  then show ?case by simp
next
  case (Cons c w)
  have "take (length pat) (c # w @ v) \<noteq> pat \<or> pat = []"
  proof (cases pat)
    case Nil
    then show ?thesis by simp
  next
    case (Cons d ds)
    have "c \<noteq> d" using Cons.prems Cons by auto
    then show ?thesis using Cons by simp
  qed
  then show ?case using Cons by auto
qed

lemma replace_all_around:
  assumes d: "set w \<inter> set pat = {}" and w: "w \<noteq> []"
  shows "replace_all pat rep (u @ w @ v)
         = replace_all pat rep u @ w @ replace_all pat rep v"
proof (induction u rule: length_induct)
  case (1 u)
  show ?case
  proof (cases u)
    case Nil
    then show ?thesis using replace_all_plain[OF d] by simp
  next
    case (Cons c u')
    show ?thesis
    proof (cases "pat \<noteq> [] \<and> take (length pat) (u @ w @ v) = pat")
      case True
      have long: "length pat \<le> length u"
      proof (rule ccontr)
        assume "\<not> length pat \<le> length u"
        then have l: "length u < length pat" by simp
        have "pat ! length u = (u @ w @ v) ! length u"
          using True l by (metis nth_take)
        also have "\<dots> = hd w" using w by (simp add: nth_append hd_conv_nth)
        finally have "hd w \<in> set pat" using l by (metis nth_mem)
        moreover have "hd w \<in> set w" using w by simp
        ultimately show False using d by auto
      qed
      then have pre: "take (length pat) u = pat" using True by simp
      define u'' where "u'' = drop (length pat) u"
      have a: "u = pat @ u''"
        unfolding u''_def using pre by (metis append_take_drop_id)
      have shorter: "length u'' < length u" using a True by simp
      have ih: "replace_all pat rep (u'' @ w @ v)
                = replace_all pat rep u'' @ w @ replace_all pat rep v"
        using 1 shorter by blast
      obtain e es where pd: "pat = e # es" using True by (cases pat) auto
      have "replace_all pat rep (u @ w @ v) = rep @ replace_all pat rep (u'' @ w @ v)"
        unfolding a by (simp add: pd)
      moreover have "replace_all pat rep u = rep @ replace_all pat rep u''"
        unfolding a by (simp add: pd)
      ultimately show ?thesis using ih by simp
    next
      case False
      then have nopre: "\<not> (pat \<noteq> [] \<and> take (length pat) u = pat)"
        by (metis append_eq_conv_conj append.assoc append_take_drop_id take_append min.idem
              length_take take_take)
      have shorter: "length u' < length u" using Cons by simp
      have ih: "replace_all pat rep (u' @ w @ v)
                = replace_all pat rep u' @ w @ replace_all pat rep v"
        using 1 shorter by blast
      have "replace_all pat rep (u @ w @ v) = c # replace_all pat rep (u' @ w @ v)"
        using False Cons by auto
      moreover have "replace_all pat rep u = c # replace_all pat rep u'"
        using nopre Cons by auto
      ultimately show ?thesis using ih by simp
    qed
  qed
qed

lemma filter_dropWhile_not:
  "filter (\<lambda>c. \<not> P c) (dropWhile P xs) = filter (\<lambda>c. \<not> P c) xs"
  by (induction xs) auto

lemma visible_replace_newlines:
  "filter (\<lambda>c. \<not> is_space c) (replace_newlines s) = filter (\<lambda>c. \<not> is_space c) s"
  by (induction s) (auto simp: replace_newlines_def is_space_def)

lemma visible_collapse_spaces:
  "filter (\<lambda>c. \<not> is_space c) (collapse_spaces s) = filter (\<lambda>c. \<not> is_space c) s"
proof (induction s rule: collapse_spaces.induct)
  case 1
  then show ?case by simp
next
  case (2 c cs)
  have "is_space 32" by (simp add: is_space_def)
  then show ?case using 2 filter_dropWhile_not[of is_space cs] by auto
qed

lemma visible_strip_tag_spaces:
  "filter (\<lambda>c. \<not> is_space c) (strip_tag_spaces s) = filter (\<lambda>c. \<not> is_space c) s"
proof (induction s rule: strip_tag_spaces.induct)
  case 1
  then show ?case by simp
next
  case (2 c cs)
  show ?case
  proof (cases "c = 62 \<and> tag_gap cs")
    case True
    then obtain ds where ds: "dropWhile is_space cs = 60 # ds"
      by (auto simp: tag_gap_def split: list.splits)
    have "filter (\<lambda>c. \<not> is_space c) cs = 60 # filter (\<lambda>c. \<not> is_space c) ds"
      using filter_dropWhile_not[of is_space cs] not_space_60 by (simp add: ds)
    then show ?thesis
      using True 2(1) ds not_space_60 not_space_62 by simp
  next
    case False
    then show ?thesis using 2(2) by auto
  qed
qed

lemma visible_respaced:
  "filter (\<lambda>c. \<not> is_space c) (respaced s) = filter (\<lambda>c. \<not> is_space c) s"
  by (simp add: visible_strip_tag_spaces visible_collapse_spaces visible_replace_newlines)

lemma pattern_facts:
  "lit ''xlink:href'' \<noteq> []" "lit ''xmlns:xlink'' \<noteq> []" "lit ''<svg'' \<noteq> []"
  "unbordered (lit ''<svg'')"
  "set (lit ''href'') \<inter> set (lit ''xmlns:xlink'') = {}"
  by (simp_all add: lit_def unbordered_def upt_rec)

lemma cleanSvgString_href:
  assumes "respaced s = a @ lit ''xlink:href'' @ b"
  shows "cleanSvgString s =
           replace_first (lit ''<svg'') svg_with_xmlns
             (relinked a @ lit ''href'' @ relinked b)"
proof -
  have "replace_all (lit ''xlink:href'') (lit ''href'') (respaced s)
        = replace_all (lit ''xlink:href'') (lit ''href'') a @ lit ''href''
          @ replace_all (lit ''xlink:href'') (lit ''href'') b"
    unfolding assms
    by (rule replace_all_occurrence[OF pattern_facts(1) unbordered_patterns(1)])
  then show ?thesis
    using replace_all_around[OF pattern_facts(5) href_facts(1)]
    by (simp add: cleanSvgString_def)
qed

lemma cleanSvgString_xmlns:
  assumes "replace_all (lit ''xlink:href'') (lit ''href'') (respaced s)
             = a @ lit ''xmlns:xlink'' @ b"
  shows "cleanSvgString s =
           replace_first (lit ''<svg'') svg_with_xmlns
             (replace_all (lit ''xmlns:xlink'') (lit ''xmlns'') a @ lit ''xmlns''
              @ replace_all (lit ''xmlns:xlink'') (lit ''xmlns'') b)"
  unfolding cleanSvgString_def assms
  by (simp add: replace_all_occurrence[OF pattern_facts(2) unbordered_patterns(2)])

lemma cleanSvgString_first_svg:
  assumes "relinked (respaced s) = a @ lit ''<svg'' @ b" and "\<not> occurs (lit ''<svg'') a"
  shows "cleanSvgString s = a @ svg_with_xmlns @ b"
  unfolding cleanSvgString_def assms(1)
  using assms(2) by (rule replace_first_at[OF pattern_facts(3,4)])

lemma cleanSvgString_no_svg:
  assumes "\<not> occurs (lit ''<svg'') (relinked (respaced s))"
  shows "cleanSvgString s = relinked (respaced s)"
  unfolding cleanSvgString_def
  using pattern_facts(3) assms by (rule replace_first_absent)

lemma processImage_as_given:
  "utf8 s = Some raw \<Longrightarrow>
   processImage P s W H =
     (case decodeImage P (lit ''data:image/svg+xml;base64,'' @ btoa raw) of
        None \<Rightarrow> Inl SvgLoadFailed
      | Some img \<Rightarrow>
          if getContext2d P
          then Inr (toDataURL P ([SetCanvasWidth W, SetCanvasHeight H]
                                 @ processImage_draw img W H))
          else Inl NoCanvasContext)"
  by (simp add: processImage_def svgToBase64_def split: option.splits)

text \<open>
  Claim C2, as the code has it. The interactive rasterizer normalises the markup before
  it parses and encodes it. The normalised markup is single-spaced (in particular it has
  no line feed) and free of tag gaps, and the three white space steps change white space
  only. Every occurrence of \<open>xlink:href\<close> in the respaced markup is rewritten to
  \<open>href\<close>, and every occurrence of \<open>xmlns:xlink\<close> left after that to \<open>xmlns\<close>, the
  text before and the text after being rewritten on their own. The first \<open><svg\<close> of
  the rewritten markup, the root tag, is followed by the declaration of the SVG
  namespace; a markup without \<open><svg\<close> is left as rewritten, and a markup that starts
  with \<open><svg\<close> starts, once normalised, with \<open><svg\<close> and the declaration. The data
  URL of the interactive rasterizer is the base64 text of the serialization of what was
  parsed from the normalised markup, and a failure to parse it is the rejection. The
  isolated-context rasterizer does not normalise: the image it draws is the one decoded
  from the base64 text of the markup as given.
\<close>

theorem cleanSvgString_normalises:
  "single_spaced (cleanSvgString s)
   \<and> 10 \<notin> set (cleanSvgString s)
   \<and> gap_free (cleanSvgString s)
   \<and> filter (\<lambda>c. \<not> is_space c) (respaced s) = filter (\<lambda>c. \<not> is_space c) s
   \<and> (\<forall>a b. respaced s = a @ lit ''xlink:href'' @ b \<longrightarrow>
          cleanSvgString s =
            replace_first (lit ''<svg'') svg_with_xmlns
              (relinked a @ lit ''href'' @ relinked b))
   \<and> (\<forall>a b. replace_all (lit ''xlink:href'') (lit ''href'') (respaced s)
                = a @ lit ''xmlns:xlink'' @ b \<longrightarrow>
          cleanSvgString s =
            replace_first (lit ''<svg'') svg_with_xmlns
              (replace_all (lit ''xmlns:xlink'') (lit ''xmlns'') a @ lit ''xmlns''
               @ replace_all (lit ''xmlns:xlink'') (lit ''xmlns'') b))
   \<and> (\<forall>a b. relinked (respaced s) = a @ lit ''<svg'' @ b \<and> \<not> occurs (lit ''<svg'') a \<longrightarrow>
          cleanSvgString s = a @ svg_with_xmlns @ b)
   \<and> (\<not> occurs (lit ''<svg'') (relinked (respaced s)) \<longrightarrow>
          cleanSvgString s = relinked (respaced s))
   \<and> (\<forall>rest. cleanSvgString (lit ''<svg'' @ rest) = svg_with_xmlns @ relinked (respaced rest))
   \<and> (parseFromString P (cleanSvgString s) = Some e \<and>
        utf8 (serializeToString P (svgToDataUrl_resized P e W H)) = Some bytes \<longrightarrow>
        svgToDataUrl_src P s W H = Inr (lit ''data:image/svg+xml;base64,'' @ btoa bytes))
   \<and> (parseFromString P (cleanSvgString s) = None \<longrightarrow>
        svgToDataUrl P s W H = Inl SvgParseFailed)
   \<and> (utf8 s = Some raw \<longrightarrow>
        svgToBase64 s = Some (lit ''data:image/svg+xml;base64,'' @ btoa raw)
        \<and> processImage P s W H =
            (case decodeImage P (lit ''data:image/svg+xml;base64,'' @ btoa raw) of
               None \<Rightarrow> Inl SvgLoadFailed
             | Some img \<Rightarrow>
                 if getContext2d P
                 then Inr (toDataURL P ([SetCanvasWidth W, SetCanvasHeight H]
                                        @ processImage_draw img W H))
                 else Inl NoCanvasContext))"
proof -
  have a: "parseFromString P (cleanSvgString s) = Some e \<Longrightarrow>
        utf8 (serializeToString P (svgToDataUrl_resized P e W H)) = Some bytes \<Longrightarrow>
        svgToDataUrl_src P s W H = Inr (lit ''data:image/svg+xml;base64,'' @ btoa bytes)"
    by (simp add: svgToDataUrl_src_def)
  have b: "parseFromString P (cleanSvgString s) = None \<Longrightarrow>
        svgToDataUrl P s W H = Inl SvgParseFailed"
    by (simp add: svgToDataUrl_def svgToDataUrl_src_def)
  have c: "utf8 s = Some raw \<Longrightarrow>
        svgToBase64 s = Some (lit ''data:image/svg+xml;base64,'' @ btoa raw)"
    by (simp add: svgToBase64_def)
  show ?thesis
    using cleanSvgString_single_spaced[of s] cleanSvgString_no_newline[of s]
      cleanSvgString_gap_free[of s] visible_respaced[of s]
      cleanSvgString_href[of s] cleanSvgString_xmlns[of s] cleanSvgString_first_svg[of s]
      cleanSvgString_no_svg[of s] cleanSvgString_root_tag a b c
      processImage_as_given[of s raw P W H]
    by blast
qed

lemma clean_markup_with_use: "cleanSvgString markup_with_use = clean_with_use"
  by (simp add: cleanSvgString_def markup_with_use_def clean_with_use_def
        replace_newlines_def lit_def is_space_def tag_gap_def svg_with_xmlns_def)

lemma clean_xlink_declaration:
  "cleanSvgString xlink_declaration =
     lit ''<g xmlns='' @ [34] @ lit ''http://www.w3.org/1999/xlink'' @ [34] @ lit ''/>''"
  by (simp add: cleanSvgString_def xlink_declaration_def replace_newlines_def lit_def
        is_space_def tag_gap_def)

lemma clean_markup_two_lines:
  "cleanSvgString markup_two_lines = svg_with_xmlns @ lit ''></svg>''"
  by (simp add: cleanSvgString_def markup_two_lines_def replace_newlines_def lit_def
        is_space_def tag_gap_def svg_with_xmlns_def)

lemma base64_with_use:
  "svgToBase64 markup_with_use =
     Some (lit ''data:image/svg+xml;base64,PHN2Zz4KCTx0aXRsZT7DqeKCrPCfmIA8L3RpdGxlPgo8dXNlIHhsaW5rOmhyZWY9IiNhIi8+IDwvc3ZnPg=='')"
  by (simp add: svgToBase64_def markup_with_use_def lit_def b64_def b64chars_def)

lemma base64_two_lines:
  "svgToBase64 markup_two_lines = Some (lit ''data:image/svg+xml;base64,PHN2Zz4KPC9zdmc+'')"
  by (simp add: svgToBase64_def markup_two_lines_def lit_def b64_def b64chars_def)

lemma base64_two_lines_clean:
  "svgToBase64 (svg_with_xmlns @ lit ''></svg>'') =
     Some (lit ''data:image/svg+xml;base64,PHN2ZyB4bWxucz0iaHR0cDovL3d3dy53My5vcmcvMjAwMC9zdmciPjwvc3ZnPg=='')"
  by (simp add: svgToBase64_def svg_with_xmlns_def lit_def b64_def b64chars_def)

text \<open>
  A markup of three lines with a tab, a title that is not ASCII and an \<open>xlink:href\<close>:
  the normalised markup is one line, with the namespace declaration and \<open>href\<close>, and
  its other characters are those of the markup. The declaration of the XLink namespace
  in the fragment becomes \<open>xmlns\<close>. The isolated-context rasterizer draws the image
  decoded from the base64 text of the UTF-8 bytes of the markup as given.
\<close>

theorem cleanSvgString_normalises_witness:
  "cleanSvgString markup_with_use = clean_with_use
   \<and> single_spaced clean_with_use
   \<and> gap_free clean_with_use
   \<and> cleanSvgString xlink_declaration =
       lit ''<g xmlns='' @ [34] @ lit ''http://www.w3.org/1999/xlink'' @ [34] @ lit ''/>''
   \<and> svgToDataUrl_src demo_platform markup_with_use (Finite 48) (Finite 48)
       = Inr (lit ''data:image/svg+xml;base64,PHN2Zy8+'')
   \<and> processImage
         (probe_platform
            (lit ''data:image/svg+xml;base64,PHN2Zz4KCTx0aXRsZT7DqeKCrPCfmIA8L3RpdGxlPgo8dXNlIHhsaW5rOmhyZWY9IiNhIi8+IDwvc3ZnPg==''))
         markup_with_use (Finite 100) (Finite 100)
       = Inr (lit ''data:image/png;base64,AAAA'')"
proof -
  have p: "parseFromString demo_platform (cleanSvgString markup_with_use) = Some demo_root"
    by (simp add: demo_platform_def)
  have u: "utf8 (serializeToString demo_platform
                  (svgToDataUrl_resized demo_platform demo_root (Finite 48) (Finite 48)))
           = Some (lit ''<svg/>'')"
    by (simp add: demo_platform_def lit_def)
  have e: "lit ''data:image/svg+xml;base64,'' @ btoa (lit ''<svg/>'')
           = lit ''data:image/svg+xml;base64,PHN2Zy8+''"
    by (simp add: lit_def b64_def b64chars_def)
  obtain raw where raw: "utf8 markup_with_use = Some raw"
    and url: "lit ''data:image/svg+xml;base64,'' @ btoa raw =
      lit ''data:image/svg+xml;base64,PHN2Zz4KCTx0aXRsZT7DqeKCrPCfmIA8L3RpdGxlPgo8dXNlIHhsaW5rOmhyZWY9IiNhIi8+IDwvc3ZnPg==''"
    using base64_with_use by (auto simp: svgToBase64_def)
  let ?probe = "probe_platform (lit ''data:image/svg+xml;base64,'' @ btoa raw)"
  have g: "getContext2d ?probe"
    "toDataURL ?probe ops = lit ''data:image/png;base64,AAAA''"
    "decodeImage ?probe (lit ''data:image/svg+xml;base64,'' @ btoa raw)
       = Some \<lparr> img_width = 200, img_height = 100 \<rparr>" for ops
    by (simp_all add: probe_platform_def demo_platform_def)
  note t = cleanSvgString_normalises
            [of markup_with_use demo_platform demo_root "Finite 48" "Finite 48"
                "lit ''<svg/>''" raw]
  note t' = cleanSvgString_normalises
            [of markup_with_use ?probe demo_root "Finite 100" "Finite 100"
                "lit ''<svg/>''" raw]
  have m1: "single_spaced (cleanSvgString markup_with_use)"
    and m2: "gap_free (cleanSvgString markup_with_use)"
    using t by blast+
  have m3: "svgToDataUrl_src demo_platform markup_with_use (Finite 48) (Finite 48)
               = Inr (lit ''data:image/svg+xml;base64,'' @ btoa (lit ''<svg/>''))"
    using t p u by blast
  have "processImage ?probe markup_with_use (Finite 100) (Finite 100) =
            (case decodeImage ?probe (lit ''data:image/svg+xml;base64,'' @ btoa raw) of
               None \<Rightarrow> Inl SvgLoadFailed
             | Some img \<Rightarrow>
                 if getContext2d ?probe
                 then Inr (toDataURL ?probe
                        ([SetCanvasWidth (Finite 100), SetCanvasHeight (Finite 100)]
                         @ processImage_draw img (Finite 100) (Finite 100)))
                 else Inl NoCanvasContext)"
    using t' raw by blast
  then have m4: "processImage ?probe markup_with_use (Finite 100) (Finite 100)
              = Inr (lit ''data:image/png;base64,AAAA'')"
    by (simp add: g)
  show ?thesis
    using m1 m2 m3 m4 unfolding url e
    by (simp add: clean_markup_with_use clean_xlink_declaration)
qed

text \<open>
  Claim C2 as stated fails for the isolated-context rasterizer. For a markup of two
  lines the normalised markup differs from the markup; \<open>processImage\<close> succeeds on a
  platform whose decoder accepts only the data URL of the markup as given, and fails to
  load on a platform whose decoder accepts only the data URL of the normalised markup.
\<close>

theorem processImage_not_normalised_counterexample:
  "cleanSvgString markup_two_lines = svg_with_xmlns @ lit ''></svg>''
   \<and> cleanSvgString markup_two_lines \<noteq> markup_two_lines
   \<and> svgToBase64 markup_two_lines
       = Some (lit ''data:image/svg+xml;base64,PHN2Zz4KPC9zdmc+'')
   \<and> svgToBase64 (cleanSvgString markup_two_lines)
       = Some (lit ''data:image/svg+xml;base64,PHN2ZyB4bWxucz0iaHR0cDovL3d3dy53My5vcmcvMjAwMC9zdmciPjwvc3ZnPg=='')
   \<and> processImage (probe_platform (lit ''data:image/svg+xml;base64,PHN2Zz4KPC9zdmc+''))
         markup_two_lines (Finite 16) (Finite 16)
       = Inr (lit ''data:image/png;base64,AAAA'')
   \<and> processImage
         (probe_platform
            (lit ''data:image/svg+xml;base64,PHN2ZyB4bWxucz0iaHR0cDovL3d3dy53My5vcmcvMjAwMC9zdmciPjwvc3ZnPg==''))
         markup_two_lines (Finite 16) (Finite 16)
       = Inl SvgLoadFailed"
proof -
  have n: "svg_with_xmlns @ lit ''></svg>'' \<noteq> markup_two_lines"
    by (simp add: svg_with_xmlns_def markup_two_lines_def lit_def)
  have d: "lit ''data:image/svg+xml;base64,PHN2Zz4KPC9zdmc+''
      \<noteq> lit ''data:image/svg+xml;base64,PHN2ZyB4bWxucz0iaHR0cDovL3d3dy53My5vcmcvMjAwMC9zdmciPjwvc3ZnPg==''"
    by (simp add: lit_def)
  have ok: "processImage (probe_platform (lit ''data:image/svg+xml;base64,PHN2Zz4KPC9zdmc+''))
         markup_two_lines (Finite 16) (Finite 16) = Inr (lit ''data:image/png;base64,AAAA'')"
    by (simp add: processImage_def base64_two_lines probe_platform_def demo_platform_def)
  have ko: "processImage
         (probe_platform
            (lit ''data:image/svg+xml;base64,PHN2ZyB4bWxucz0iaHR0cDovL3d3dy53My5vcmcvMjAwMC9zdmciPjwvc3ZnPg==''))
         markup_two_lines (Finite 16) (Finite 16) = Inl SvgLoadFailed"
    using d by (simp add: processImage_def base64_two_lines probe_platform_def demo_platform_def)
  show ?thesis
    using n ok ko
    by (simp add: clean_markup_two_lines base64_two_lines base64_two_lines_clean)
qed

end
